theory Spec2Isabelle
  imports Main "HOL-Library.Word"
begin

section \<open>Machine types and constants\<close>

text \<open>
  The game is built with TinyGo for the RP2040, a 32-bit target, so Go's \<open>uint\<close> is a
  32-bit word and its arithmetic wraps silently. ADC readings are \<open>uint16\<close>, map markers
  are \<open>uint8\<close> character codes.
\<close>

type_synonym uint = "32 word"
type_synonym uint8 = "8 word"
type_synonym uint16 = "16 word"

definition textWin :: string where "textWin = ''    YOU BEAT THE WUMPUS!    ''"
definition textLose :: string where "textLose = ''    THE WUMPUS KILLED YOU!    ''"
definition textFell :: string where "textFell = ''    YOU DIED!    ''"

definition UPPER_LIMIT :: uint16 where "UPPER_LIMIT = 50000"
definition LOWER_LIMIT :: uint16 where "LOWER_LIMIT = 10000"

definition DEBOUNCE_TIME_MS :: int where "DEBOUNCE_TIME_MS = 10"

definition PIT :: uint8 where "PIT = 112"
definition BAT :: uint8 where "BAT = 98"
definition WUMPUS :: uint8 where "WUMPUS = 119"
definition EMPTY :: uint8 where "EMPTY = 35"

definition UP :: uint where "UP = 0"
definition DOWN :: uint where "DOWN = 1"
definition LEFT :: uint where "LEFT = 2"
definition RIGHT :: uint where "RIGHT = 3"
definition NONE :: uint where "NONE = 99"

section \<open>Faults\<close>

text \<open>
  Go panics on an array index out of range and on an integer division by zero. The
  rejection-sampling loops have no bound of their own; they are run on a finite list of
  random draws, and \<open>DrawsExhausted\<close> says that the loop had not left when the list ended.
\<close>

datatype fault = IndexOutOfRange | DivideByZero | DrawsExhausted

section \<open>The random number source\<close>

text \<open>
  One call of \<open>irandom\<close> makes one draw: either \<open>machine.GetRNG()\<close> succeeds with a
  32-bit value, or it fails and \<open>math/rand\<close> supplies one. Both branches reduce the
  draw modulo \<open>max\<close> and add \<open>start\<close>; on the 32-bit target the conversions between
  \<open>uint\<close> and \<open>uint32\<close> change nothing. The modulo panics when \<open>max\<close> is zero.
\<close>

datatype draw = Hardware "32 word" | Fallback "32 word"

fun drawn :: "draw \<Rightarrow> 32 word" where
  "drawn (Hardware v) = v"
| "drawn (Fallback v) = v"

definition irandom :: "draw \<Rightarrow> uint \<Rightarrow> uint \<Rightarrow> fault + uint" where
  "irandom d start max' =
     (case d of
        Fallback r \<Rightarrow> (if max' = 0 then Inl DivideByZero else Inr (r mod max' + start))
      | Hardware v \<Rightarrow> (if max' = 0 then Inl DivideByZero else Inr (v mod max' + start)))"

section \<open>Boards\<close>

text \<open>
  A Go array \<open>[8][8]T\<close> is a function on index pairs; only the indices below 8 belong to
  the array. A read or write through a \<open>uint\<close> index checks the bounds as Go does and
  panics outside them. The loops of \<open>createWorld\<close> index with counters that stay below
  8 and write through \<open>put\<close> directly.
\<close>

type_synonym 'a board = "nat \<Rightarrow> nat \<Rightarrow> 'a"

definition put :: "'a board \<Rightarrow> nat \<Rightarrow> nat \<Rightarrow> 'a \<Rightarrow> 'a board" where
  "put g i j v = g(i := (g i)(j := v))"

definition cell :: "'a board \<Rightarrow> uint \<Rightarrow> uint \<Rightarrow> fault + 'a" where
  "cell g x y = (if x < 8 \<and> y < 8 then Inr (g (unat x) (unat y)) else Inl IndexOutOfRange)"

definition set_cell :: "'a board \<Rightarrow> uint \<Rightarrow> uint \<Rightarrow> 'a \<Rightarrow> fault + 'a board" where
  "set_cell g x y v =
     (if x < 8 \<and> y < 8 then Inr (put g (unat x) (unat y) v) else Inl IndexOutOfRange)"

definition elem :: "'a list \<Rightarrow> uint \<Rightarrow> fault + 'a" where
  "elem xs i = (if unat i < length xs then Inr (xs ! unat i) else Inl IndexOutOfRange)"

section \<open>Program state\<close>

text \<open>
  The presentation port (LED matrix, buzzer) is an external collaborator: each animation
  the game asks for is logged as a cue, most recent first. The random numbers that only
  pick tone pitches and brightness levels inside animations are not part of the game
  logic and are not drawn from the modelled list.
\<close>

datatype cue =
    GrabbedByBat | PlungedIntoPit | FireArrow | DeadWumpus | ArrowMiss | WumpusWin
  | Trophy | Print string

text \<open>
  The package-level variables of the game. \<open>debounceButtonCount\<close> is a \<open>time.Time\<close>,
  kept as nanoseconds on the monotonic clock.
\<close>

record game =
  hazards :: "uint8 board"
  visited :: "bool board"
  stinkLayer :: "bool board"
  soundLayer :: "bool board"
  draughtLayer :: "bool board"
  playerX :: uint
  playerY :: uint
  lastMoveDirection :: uint
  isInPlay :: bool
  isJoystickCentred :: bool
  debounceButtonFlag :: bool
  debounceButtonCount :: int
  cues :: "cue list"

text \<open>One pass of the polling loop reads both ADC axes, the button and the clock.\<close>

record sample =
  pinX :: uint16
  pinY :: uint16
  pinButton :: bool
  timeNow :: int

section \<open>World generation\<close>

definition startPoints :: "uint list" where
  "startPoints = [0, 0, 0, 7, 7, 7, 7, 0]"

text \<open>
  \<open>rollHazards\<close>: \<open>rollAccepts\<close> is the test that leaves the inner loop, \<open>rollCell\<close> the
  inner loop (draw x and y until the square is accepted), \<open>rollHazards_loop\<close> the outer
  loop over the hazards still to place.
\<close>

definition rollAccepts :: "game \<Rightarrow> uint \<Rightarrow> uint \<Rightarrow> fault + bool" where
  "rollAccepts s hazard_x hazard_y =
     (case cell (hazards s) hazard_x hazard_y of
        Inl e \<Rightarrow> Inl e
      | Inr h \<Rightarrow> Inr (h = EMPTY \<and> hazard_x \<noteq> playerX s \<and> hazard_y \<noteq> playerY s))"

fun rollCell :: "game \<Rightarrow> draw list \<Rightarrow> fault + (uint \<times> uint \<times> draw list)" where
  "rollCell s (d1 # d2 # ds) =
     (case irandom d1 0 8 of
        Inl e \<Rightarrow> Inl e
      | Inr hazard_x \<Rightarrow>
          (case irandom d2 0 8 of
             Inl e \<Rightarrow> Inl e
           | Inr hazard_y \<Rightarrow>
               (case rollAccepts s hazard_x hazard_y of
                  Inl e \<Rightarrow> Inl e
                | Inr ok \<Rightarrow> if ok then Inr (hazard_x, hazard_y, ds) else rollCell s ds)))"
| "rollCell s _ = Inl DrawsExhausted"

fun rollHazards_loop :: "nat \<Rightarrow> uint8 \<Rightarrow> game \<Rightarrow> draw list \<Rightarrow> fault + (game \<times> draw list)" where
  "rollHazards_loop 0 hazardType s ds = Inr (s, ds)"
| "rollHazards_loop (Suc n) hazardType s ds =
     (case rollCell s ds of
        Inl e \<Rightarrow> Inl e
      | Inr (hazard_x, hazard_y, ds') \<Rightarrow>
          (case set_cell (hazards s) hazard_x hazard_y hazardType of
             Inl e \<Rightarrow> Inl e
           | Inr h \<Rightarrow> rollHazards_loop n hazardType (s\<lparr>hazards := h\<rparr>) ds'))"

definition rollHazards :: "uint8 \<Rightarrow> uint \<Rightarrow> game \<Rightarrow> draw list \<Rightarrow> fault + (game \<times> draw list)" where
  "rollHazards hazardType count s ds = rollHazards_loop (unat count) hazardType s ds"

text \<open>The four guarded writes around square (i, j) of one sense layer.\<close>

definition markNeighbours :: "bool board \<Rightarrow> nat \<Rightarrow> nat \<Rightarrow> bool board" where
  "markNeighbours layer i j =
     (let l1 = (if i < 7 then put layer (i + 1) j True else layer);
          l2 = (if i > 0 then put l1 (i - 1) j True else l1);
          l3 = (if j < 7 then put l2 i (j + 1) True else l2)
      in if j > 0 then put l3 i (j - 1) True else l3)"

definition senseCell :: "nat \<Rightarrow> nat \<Rightarrow> game \<Rightarrow> game" where
  "senseCell i j s =
     (if hazards s i j = WUMPUS then s\<lparr>stinkLayer := markNeighbours (stinkLayer s) i j\<rparr>
      else if hazards s i j = PIT then s\<lparr>draughtLayer := markNeighbours (draughtLayer s) i j\<rparr>
      else if hazards s i j = BAT then s\<lparr>soundLayer := markNeighbours (soundLayer s) i j\<rparr>
      else s)"

definition senseLoops :: "game \<Rightarrow> game" where
  "senseLoops s = fold (\<lambda>i. fold (\<lambda>j. senseCell i j) [0..<8]) [0..<8] s"

definition clearBoards :: "game \<Rightarrow> game" where
  "clearBoards s =
     s\<lparr>hazards := (\<lambda>i j. EMPTY), visited := (\<lambda>i j. False), stinkLayer := (\<lambda>i j. False),
       draughtLayer := (\<lambda>i j. False), soundLayer := (\<lambda>i j. False)\<rparr>"

definition createWorld :: "game \<Rightarrow> draw list \<Rightarrow> fault + (game \<times> draw list)" where
  "createWorld s ds =
     (case ds of
        [] \<Rightarrow> Inl DrawsExhausted
      | d0 # ds0 \<Rightarrow>
     (case irandom d0 0 4 of
        Inl e \<Rightarrow> Inl e
      | Inr r \<Rightarrow>
     (let startCorner = push_bit 1 r in
      case elem startPoints startCorner of
        Inl e \<Rightarrow> Inl e
      | Inr px \<Rightarrow>
     (case elem startPoints (startCorner + 1) of
        Inl e \<Rightarrow> Inl e
      | Inr py \<Rightarrow>
     (let s1 = clearBoards
                 (s\<lparr>playerX := px, playerY := py,
                    lastMoveDirection := (if py = 0 then UP else DOWN)\<rparr>) in
      case ds0 of
        [] \<Rightarrow> Inl DrawsExhausted
      | d1 # ds1 \<Rightarrow>
     (case irandom d1 1 4 of
        Inl e \<Rightarrow> Inl e
      | Inr bats \<Rightarrow>
     (case rollHazards BAT bats s1 ds1 of
        Inl e \<Rightarrow> Inl e
      | Inr (s2, ds2) \<Rightarrow>
     (case ds2 of
        [] \<Rightarrow> Inl DrawsExhausted
      | d2 # ds3 \<Rightarrow>
     (case irandom d2 1 4 of
        Inl e \<Rightarrow> Inl e
      | Inr pits \<Rightarrow>
     (case rollHazards PIT pits s2 ds3 of
        Inl e \<Rightarrow> Inl e
      | Inr (s3, ds4) \<Rightarrow>
     (case rollHazards WUMPUS 1 s3 ds4 of
        Inl e \<Rightarrow> Inl e
      | Inr (s4, ds5) \<Rightarrow> Inr (senseLoops s4, ds5))))))))))))"

section \<open>Presentation cues and the end of a round\<close>

definition play :: "cue \<Rightarrow> game \<Rightarrow> game" where
  "play c s = s\<lparr>cues := c # cues s\<rparr>"

definition gameOver :: "string \<Rightarrow> game \<Rightarrow> game" where
  "gameOver text s = play (Print text) (s\<lparr>isInPlay := False\<rparr>)"

definition gameLost :: "bool \<Rightarrow> game \<Rightarrow> game" where
  "gameLost wumpusWon s = (if wumpusWon then gameOver textLose s else gameOver textFell s)"

definition gameWon :: "game \<Rightarrow> game" where
  "gameWon s = gameOver textWin (play Trophy s)"

definition grabbedByBatAnimation :: "game \<Rightarrow> game" where
  "grabbedByBatAnimation s = play GrabbedByBat s"

definition plungedIntoPitAnimation :: "game \<Rightarrow> game" where
  "plungedIntoPitAnimation s = play PlungedIntoPit s"

definition fireArrowAnimation :: "game \<Rightarrow> game" where
  "fireArrowAnimation s = play FireArrow s"

definition wumpusWinAnimation :: "game \<Rightarrow> game" where
  "wumpusWinAnimation s = play WumpusWin s"

definition deadWumpusAnimation :: "game \<Rightarrow> game" where
  "deadWumpusAnimation s = gameWon (play DeadWumpus s)"

definition arrowMissAnimation :: "game \<Rightarrow> game" where
  "arrowMissAnimation s = gameLost True (wumpusWinAnimation (play ArrowMiss s))"

section \<open>Input decoding\<close>

definition checkJoystick :: "uint16 \<Rightarrow> uint16 \<Rightarrow> game \<Rightarrow> bool \<times> game" where
  "checkJoystick x y s =
     (if x > UPPER_LIMIT \<or> x < LOWER_LIMIT \<or> y > UPPER_LIMIT \<or> y < LOWER_LIMIT
      then (if isJoystickCentred s then (True, s\<lparr>isJoystickCentred := False\<rparr>)
            else (False, s))
      else (False, s\<lparr>isJoystickCentred := True\<rparr>))"

text \<open>
  \<open>getDirection\<close> returns from inside three guarded blocks; each early return is one
  branch of the chain below, in the order of the source.
\<close>

definition getDirection :: "uint16 \<Rightarrow> uint16 \<Rightarrow> uint" where
  "getDirection x y =
     (let ydead = (y > LOWER_LIMIT \<and> y < UPPER_LIMIT);
          xdead = (x > LOWER_LIMIT \<and> x < UPPER_LIMIT)
      in if ydead \<and> \<not> xdead \<and> x < LOWER_LIMIT then RIGHT
         else if ydead \<and> \<not> xdead \<and> x > UPPER_LIMIT then LEFT
         else if xdead \<and> \<not> ydead \<and> y < LOWER_LIMIT then DOWN
         else if xdead \<and> \<not> ydead \<and> y > UPPER_LIMIT then UP
         else if \<not> xdead \<and> \<not> ydead \<and> x < LOWER_LIMIT then RIGHT
         else if \<not> xdead \<and> \<not> ydead \<and> x > UPPER_LIMIT then LEFT
         else if \<not> xdead \<and> \<not> ydead \<and> y < LOWER_LIMIT then DOWN
         else if \<not> xdead \<and> \<not> ydead \<and> y > UPPER_LIMIT then UP
         else NONE)"

text \<open>\<open>Duration.Milliseconds\<close>: nanoseconds divided by a million, truncated towards zero.\<close>

definition milliseconds :: "int \<Rightarrow> int" where
  "milliseconds d = (if d \<ge> 0 then d div 1000000 else - ((- d) div 1000000))"

section \<open>The round controller\<close>

text \<open>The \<open>switch direction\<close> of the game loop.\<close>

definition movePlayer :: "uint \<Rightarrow> game \<Rightarrow> game" where
  "movePlayer direction s =
     (if direction = UP then
        (if playerY s < 7 then s\<lparr>playerY := playerY s + 1, lastMoveDirection := UP\<rparr> else s)
      else if direction = DOWN then
        (if playerY s > 0 then s\<lparr>playerY := playerY s - 1, lastMoveDirection := DOWN\<rparr> else s)
      else if direction = LEFT then
        (if playerX s > 0 then s\<lparr>playerX := playerX s - 1, lastMoveDirection := LEFT\<rparr> else s)
      else if direction = RIGHT then
        (if playerX s < 7 then s\<lparr>playerX := playerX s + 1, lastMoveDirection := RIGHT\<rparr> else s)
      else s)"

text \<open>The bat's drop loop of \<open>checkHazards\<close>: draw x and y until the square is empty.\<close>

fun dropPlayer :: "uint8 board \<Rightarrow> draw list \<Rightarrow> fault + (uint \<times> uint \<times> draw list)" where
  "dropPlayer hz (d1 # d2 # ds) =
     (case irandom d1 0 8 of
        Inl e \<Rightarrow> Inl e
      | Inr x \<Rightarrow>
          (case irandom d2 0 8 of
             Inl e \<Rightarrow> Inl e
           | Inr y \<Rightarrow>
               (case cell hz x y of
                  Inl e \<Rightarrow> Inl e
                | Inr h \<Rightarrow> if h = EMPTY then Inr (x, y, ds) else dropPlayer hz ds)))"
| "dropPlayer hz _ = Inl DrawsExhausted"

definition checkHazards :: "game \<Rightarrow> draw list \<Rightarrow> fault + (bool \<times> game \<times> draw list)" where
  "checkHazards s ds =
     (case cell (hazards s) (playerX s) (playerY s) of
        Inl e \<Rightarrow> Inl e
      | Inr h \<Rightarrow>
          if h = BAT then
            (case dropPlayer (hazards s) ds of
               Inl e \<Rightarrow> Inl e
             | Inr (x, y, ds') \<Rightarrow>
                 Inr (False, (grabbedByBatAnimation s)\<lparr>playerX := x, playerY := y\<rparr>, ds'))
          else if h = PIT then Inr (True, gameLost False (plungedIntoPitAnimation s), ds)
          else if h = WUMPUS then Inr (True, gameLost True (wumpusWinAnimation s), ds)
          else Inr (False, s, ds))"

text \<open>The \<open>switch lastMoveDirection\<close> that decides whether the arrow hit.\<close>

definition arrowAt :: "game \<Rightarrow> uint \<Rightarrow> uint \<Rightarrow> fault + game" where
  "arrowAt s x y =
     (case cell (hazards s) x y of
        Inl e \<Rightarrow> Inl e
      | Inr h \<Rightarrow> Inr (if h = WUMPUS then deadWumpusAnimation s else arrowMissAnimation s))"

definition shootArrow :: "game \<Rightarrow> fault + game" where
  "shootArrow s =
     (if lastMoveDirection s = UP then
        (if playerY s < 7 then arrowAt s (playerX s) (playerY s + 1) else Inr s)
      else if lastMoveDirection s = DOWN then
        (if playerY s > 0 then arrowAt s (playerX s) (playerY s - 1) else Inr s)
      else if lastMoveDirection s = RIGHT then
        (if playerX s < 7 then arrowAt s (playerX s + 1) (playerY s) else Inr s)
      else if lastMoveDirection s = LEFT then
        (if playerX s > 0 then arrowAt s (playerX s - 1) (playerY s) else Inr s)
      else Inr s)"

text \<open>
  \<open>markVisited\<close> is the write \<open>visited[playerX][playerY] = true\<close> before the move.
  \<open>tick\<close> is one pass of the loop body of \<open>gameLoop\<close>, up to the test that leaves the
  loop; its result carries \<open>isDead\<close>. The clock of the sample stands for \<open>time.Now()\<close>
  and for the end point of \<open>time.Since\<close>. Drawing the board and setting the sense LEDs
  and the bat squeak change no game variable and are left out.
\<close>

definition markVisited :: "game \<Rightarrow> fault + game" where
  "markVisited s =
     (case set_cell (visited s) (playerX s) (playerY s) True of
        Inl e \<Rightarrow> Inl e
      | Inr v \<Rightarrow> Inr (s\<lparr>visited := v\<rparr>))"

definition tick :: "sample \<Rightarrow> game \<Rightarrow> draw list \<Rightarrow> fault + (bool \<times> game \<times> draw list)" where
  "tick p s ds =
     (case checkJoystick (pinX p) (pinY p) s of
        (True, s1) \<Rightarrow>
          (let direction = getDirection (pinX p) (pinY p) in
           case markVisited s1 of
             Inl e \<Rightarrow> Inl e
           | Inr s2 \<Rightarrow> checkHazards (movePlayer direction s2) ds)
      | (False, s1) \<Rightarrow>
          if pinButton p then
            (if \<not> debounceButtonFlag s1 then
               Inr (False, s1\<lparr>debounceButtonCount := timeNow p, debounceButtonFlag := True\<rparr>, ds)
             else if milliseconds (timeNow p - debounceButtonCount s1) > DEBOUNCE_TIME_MS then
               (case shootArrow (fireArrowAnimation (s1\<lparr>debounceButtonFlag := False\<rparr>)) of
                  Inl e \<Rightarrow> Inl e
                | Inr s2 \<Rightarrow> Inr (False, s2, ds))
             else Inr (False, s1, ds))
          else Inr (False, s1, ds))"

text \<open>
  The polling loop on a finite trace of samples: it leaves at the first pass that ends
  with \<open>isDead\<close> or with \<open>isInPlay\<close> cleared, and otherwise returns the state reached
  when the trace ends.
\<close>

fun gameLoop_from :: "sample list \<Rightarrow> game \<Rightarrow> draw list \<Rightarrow> fault + (game \<times> draw list)" where
  "gameLoop_from [] s ds = Inr (s, ds)"
| "gameLoop_from (p # ps) s ds =
     (case tick p s ds of
        Inl e \<Rightarrow> Inl e
      | Inr (isDead, s', ds') \<Rightarrow>
          if isDead \<or> \<not> isInPlay s' then Inr (s', ds') else gameLoop_from ps s' ds')"

definition gameLoop :: "sample list \<Rightarrow> game \<Rightarrow> draw list \<Rightarrow> fault + (game \<times> draw list)" where
  "gameLoop ps s ds = gameLoop_from ps (s\<lparr>isInPlay := True, debounceButtonFlag := False\<rparr>) ds"

section \<open>Notions of the specification\<close>

text \<open>The 64 squares of the cave, and how many of them hold a given marker.\<close>

definition all_cells :: "(nat \<times> nat) list" where
  "all_cells = List.product [0..<8] [0..<8]"

definition count_cells :: "uint8 board \<Rightarrow> uint8 \<Rightarrow> nat" where
  "count_cells g k = length (filter (\<lambda>(i, j). g i j = k) all_cells)"

text \<open>
  Square (i, j) is on the board and one orthogonal step from (x, y): no diagonals and
  no wrap-around at the edges.
\<close>

definition adjacent :: "nat \<Rightarrow> nat \<Rightarrow> nat \<Rightarrow> nat \<Rightarrow> bool" where
  "adjacent x y i j \<longleftrightarrow>
     i < 8 \<and> j < 8 \<and> ((i = x \<and> (j = y + 1 \<or> y = j + 1)) \<or> (j = y \<and> (i = x + 1 \<or> x = i + 1)))"

definition near :: "uint8 board \<Rightarrow> uint8 \<Rightarrow> nat \<Rightarrow> nat \<Rightarrow> bool" where
  "near g k x y = list_ex (\<lambda>(i, j). adjacent x y i j \<and> g i j = k) all_cells"

text \<open>The dead-zone of one axis is the closed range between the two limits.\<close>

definition dead :: "uint16 \<Rightarrow> bool" where
  "dead v \<longleftrightarrow> LOWER_LIMIT \<le> v \<and> v \<le> UPPER_LIMIT"

definition live :: "uint16 \<Rightarrow> bool" where
  "live v \<longleftrightarrow> v < LOWER_LIMIT \<or> v > UPPER_LIMIT"

definition centred :: "uint16 \<times> uint16 \<Rightarrow> bool" where
  "centred p \<longleftrightarrow> dead (fst p) \<and> dead (snd p)"

text \<open>The movement gate on a sequence of joystick polls: the answer of each poll.\<close>

fun pollJoystick :: "(uint16 \<times> uint16) list \<Rightarrow> game \<Rightarrow> bool list" where
  "pollJoystick [] s = []"
| "pollJoystick (p # ps) s =
     (case checkJoystick (fst p) (snd p) s of (r, s') \<Rightarrow> r # pollJoystick ps s')"

text \<open>
  The square one step from the player in a direction, in unbounded integers, and
  whether a square is on the board.
\<close>

definition stepFrom :: "uint \<Rightarrow> game \<Rightarrow> int \<times> int" where
  "stepFrom d s =
     (if d = UP then (uint (playerX s), uint (playerY s) + 1)
      else if d = DOWN then (uint (playerX s), uint (playerY s) - 1)
      else if d = LEFT then (uint (playerX s) - 1, uint (playerY s))
      else if d = RIGHT then (uint (playerX s) + 1, uint (playerY s))
      else (uint (playerX s), uint (playerY s)))"

definition onBoard :: "int \<times> int \<Rightarrow> bool" where
  "onBoard p \<longleftrightarrow> 0 \<le> fst p \<and> fst p \<le> 7 \<and> 0 \<le> snd p \<and> snd p \<le> 7"


text \<open>
  Phase and outcome of a round are read off the program state: the round is being
  explored while \<open>isInPlay\<close> holds, and its outcome is the last text sent to the display.
\<close>

datatype phase = Exploring | Over


definition phase_of :: "game \<Rightarrow> phase" where
  "phase_of s = (if isInPlay s then Exploring else Over)"






text \<open>Some pair of consecutive draws of the bat's drop loop lands on an empty square.\<close>

fun someDrop :: "uint8 board \<Rightarrow> draw list \<Rightarrow> bool" where
  "someDrop hz (d1 # d2 # ds) =
     (hz (unat (drawn d1 mod 8)) (unat (drawn d2 mod 8)) = EMPTY \<or> someDrop hz ds)"
| "someDrop hz _ = False"

text \<open>
  The square named by pair number \<open>k\<close> of a list of draws, each draw reduced modulo 8,
  and whether a square is Empty in a hazards grid.
\<close>

definition drawnSquare :: "draw list \<Rightarrow> nat \<Rightarrow> uint \<times> uint" where
  "drawnSquare ds k = (drawn (ds ! (2 * k)) mod 8, drawn (ds ! (2 * k + 1)) mod 8)"

definition emptyAt :: "uint8 board \<Rightarrow> uint \<times> uint \<Rightarrow> bool" where
  "emptyAt hz q \<longleftrightarrow> hz (unat (fst q)) (unat (snd q)) = EMPTY"

section \<open>Example inputs\<close>

text \<open>The package-level variables as the program starts.\<close>

definition initial :: game where
  "initial =
     \<lparr>hazards = (\<lambda>i j. 0), visited = (\<lambda>i j. False), stinkLayer = (\<lambda>i j. False),
      soundLayer = (\<lambda>i j. False), draughtLayer = (\<lambda>i j. False), playerX = 0, playerY = 0,
      lastMoveDirection = 0, isInPlay = False, isJoystickCentred = True,
      debounceButtonFlag = False, debounceButtonCount = 0, cues = []\<rparr>"

text \<open>
  A run of the generator: corner (0,0); the bat roll draws 3; squares (1,1), (2,2),
  (3,3), (4,4); the pit roll draws 0; square (5,5); the Wumpus on (6,6).
\<close>

definition fourBats :: "draw list" where
  "fourBats = map Hardware [0, 3, 1, 1, 2, 2, 3, 3, 4, 4, 0, 5, 5, 6, 6]"

text \<open>The board that run lays out, before the sense layers are derived.\<close>

definition fourBatsLaid :: game where
  "fourBatsLaid =
     initial\<lparr>lastMoveDirection := UP,
       hazards :=
         put (put (put (put (put (put (\<lambda>i j. EMPTY) 1 1 BAT) 2 2 BAT) 3 3 BAT) 4 4 BAT)
           5 5 PIT) 6 6 WUMPUS\<rparr>"

text \<open>A small cave in play: a bat on (0,1), a pit on (2,2), the Wumpus on (1,0).\<close>

definition cave :: game where
  "cave =
     initial\<lparr>hazards := put (put (put (\<lambda>i j. EMPTY) 0 1 BAT) 2 2 PIT) 1 0 WUMPUS,
             isInPlay := True\<rparr>"

definition poll :: "uint16 \<Rightarrow> uint16 \<Rightarrow> bool \<Rightarrow> int \<Rightarrow> sample" where
  "poll x y b t = \<lparr>pinX = x, pinY = y, pinButton = b, timeNow = t\<rparr>"



text \<open>
  A poll that pushes the stick up, and draws for the bat's drop: (1,0) holds the Wumpus
  and is rejected, (3,4) is empty.
\<close>

definition upPoll :: sample where
  "upPoll = poll 30000 60000 False 0"

definition dropDraws :: "draw list" where
  "dropDraws = map Hardware [1, 0, 3, 4]"


definition freshBoard :: game where
  "freshBoard = clearBoards (initial\<lparr>lastMoveDirection := UP\<rparr>)"

section \<open>The random number wrapper\<close>

lemma irandom_value:
  "max' \<noteq> 0 \<Longrightarrow> irandom d start max' = Inr (drawn d mod max' + start)"
  by (cases d) (simp_all add: irandom_def)

lemma irandom_bounds:
  fixes start max' r :: uint
  assumes "max' \<noteq> 0" and "unat start + unat max' \<le> 2 ^ 32"
  shows "unat (r mod max' + start) = unat (r mod max') + unat start"
    and "unat (r mod max') < unat max'"
proof -
  from assms(1) have pos: "0 < unat max'" by (simp add: unat_gt_0)
  then show lt: "unat (r mod max') < unat max'" by (simp add: unat_mod)
  with assms(2) have "unat (r mod max') + unat start < 2 ^ LENGTH(32)" by simp
  then show "unat (r mod max' + start) = unat (r mod max') + unat start"
    by (simp only: unat_add_lem)
qed




lemma irandom_0_8: "irandom d 0 8 = Inr (drawn d mod 8)"
  by (simp add: irandom_value)

lemma drawn_mod_8: "drawn d mod 8 < (8 :: uint)"
  by (rule word_mod_less_divisor) simp

section \<open>Markers, directions and squares\<close>

lemmas limits = LOWER_LIMIT_def UPPER_LIMIT_def

lemmas directions = UP_def DOWN_def LEFT_def RIGHT_def NONE_def

lemma limits_nat: "unat LOWER_LIMIT = 10000" "unat UPPER_LIMIT = 50000"
  by (simp_all add: limits)

lemma directions_distinct:
  "UP \<noteq> DOWN" "UP \<noteq> LEFT" "UP \<noteq> RIGHT" "DOWN \<noteq> LEFT" "DOWN \<noteq> RIGHT" "LEFT \<noteq> RIGHT"
  "DOWN \<noteq> UP" "LEFT \<noteq> UP" "RIGHT \<noteq> UP" "LEFT \<noteq> DOWN" "RIGHT \<noteq> DOWN" "RIGHT \<noteq> LEFT"
  by (simp_all add: directions)

lemma markers_distinct:
  "BAT \<noteq> EMPTY" "PIT \<noteq> EMPTY" "WUMPUS \<noteq> EMPTY" "BAT \<noteq> PIT" "BAT \<noteq> WUMPUS" "PIT \<noteq> WUMPUS"
  "EMPTY \<noteq> BAT" "EMPTY \<noteq> PIT" "EMPTY \<noteq> WUMPUS" "PIT \<noteq> BAT" "WUMPUS \<noteq> BAT" "WUMPUS \<noteq> PIT"
  by (simp_all add: BAT_def PIT_def WUMPUS_def EMPTY_def)


lemmas cue_defs = play_def gameOver_def gameLost_def gameWon_def grabbedByBatAnimation_def
  plungedIntoPitAnimation_def fireArrowAnimation_def wumpusWinAnimation_def
  deadWumpusAnimation_def arrowMissAnimation_def

lemma put_apply: "put g i j v x y = (if x = i \<and> y = j then v else g x y)"
  by (simp add: put_def)

lemma guarded_put:
  "(if c then put g a b True else g) x y \<longleftrightarrow> g x y \<or> (c \<and> x = a \<and> y = b)"
  by (simp add: put_def)

lemma cell_eq_iff: "cell g x y = Inr v \<longleftrightarrow> x < 8 \<and> y < 8 \<and> g (unat x) (unat y) = v"
  by (auto simp: cell_def)

lemma on_board_up:
  "playerX s < 8 \<Longrightarrow> playerY s < 8 \<Longrightarrow> onBoard (stepFrom UP s) \<longleftrightarrow> playerY s < 7"
  by (auto simp: onBoard_def stepFrom_def word_less_def word_le_def directions)

lemma on_board_down:
  "playerX s < 8 \<Longrightarrow> playerY s < 8 \<Longrightarrow> onBoard (stepFrom DOWN s) \<longleftrightarrow> playerY s > 0"
  by (auto simp: onBoard_def stepFrom_def word_less_def word_le_def directions)

lemma on_board_left:
  "playerX s < 8 \<Longrightarrow> playerY s < 8 \<Longrightarrow> onBoard (stepFrom LEFT s) \<longleftrightarrow> playerX s > 0"
  by (auto simp: onBoard_def stepFrom_def word_less_def word_le_def directions)

lemma on_board_right:
  "playerX s < 8 \<Longrightarrow> playerY s < 8 \<Longrightarrow> onBoard (stepFrom RIGHT s) \<longleftrightarrow> playerX s < 7"
  by (auto simp: onBoard_def stepFrom_def word_less_def word_le_def directions)





section \<open>Direction decoding\<close>

text \<open>
  The three blocks of \<open>getDirection\<close> amount to one chain of tests: X below, X above,
  Y below, Y above.
\<close>

lemma getDirection_chain:
  "getDirection x y =
     (if x < LOWER_LIMIT then RIGHT else if x > UPPER_LIMIT then LEFT
      else if y < LOWER_LIMIT then DOWN else if y > UPPER_LIMIT then UP else NONE)"
proof -
  note defs = getDirection_def Let_def word_less_nat_alt limits_nat
  consider (lo) "unat x < 10000" | (eqL) "unat x = 10000"
    | (mid) "10000 < unat x" "unat x < 50000" | (eqU) "unat x = 50000" | (hi) "50000 < unat x"
    by linarith
  then show ?thesis
  proof cases
    case lo
    then show ?thesis by (simp add: defs)
  next
    case eqL
    then show ?thesis by (simp add: defs)
  next
    case mid
    then show ?thesis by (simp add: defs)
  next
    case eqU
    then show ?thesis by (simp add: defs)
  next
    case hi
    then show ?thesis by (simp add: defs)
  qed
qed

text \<open>
  C8. Decoding one raw sample follows the table: with Y dead and X live, X below the
  lower limit gives Right and X above the upper limit gives Left; with X dead and Y
  live, Y below gives Down and Y above gives Up; the thresholds are always tried in the
  order Right, Left, Down, Up and the first that matches wins, so that with both axes
  live the result is a horizontal move; with both axes dead the result is None. An axis
  is dead inside the closed range of the two limits and live outside it.
\<close>

theorem getDirection_table:
  "(dead y \<and> x < LOWER_LIMIT \<longrightarrow> getDirection x y = RIGHT)
 \<and> (dead y \<and> x > UPPER_LIMIT \<longrightarrow> getDirection x y = LEFT)
 \<and> (dead x \<and> y < LOWER_LIMIT \<longrightarrow> getDirection x y = DOWN)
 \<and> (dead x \<and> y > UPPER_LIMIT \<longrightarrow> getDirection x y = UP)
 \<and> getDirection x y =
       (if x < LOWER_LIMIT then RIGHT else if x > UPPER_LIMIT then LEFT
        else if y < LOWER_LIMIT then DOWN else if y > UPPER_LIMIT then UP else NONE)
 \<and> (live x \<and> live y \<longrightarrow> getDirection x y = RIGHT \<or> getDirection x y = LEFT)
 \<and> (dead x \<and> dead y \<longrightarrow> getDirection x y = NONE)"
proof -
  have "(dead y \<and> x < LOWER_LIMIT \<longrightarrow> getDirection x y = RIGHT)
 \<and> (dead y \<and> x > UPPER_LIMIT \<longrightarrow> getDirection x y = LEFT)
 \<and> (dead x \<and> y < LOWER_LIMIT \<longrightarrow> getDirection x y = DOWN)
 \<and> (dead x \<and> y > UPPER_LIMIT \<longrightarrow> getDirection x y = UP)
 \<and> (live x \<and> live y \<longrightarrow> getDirection x y = RIGHT \<or> getDirection x y = LEFT)
 \<and> (dead x \<and> dead y \<longrightarrow> getDirection x y = NONE)"
    by (simp add: getDirection_chain dead_def live_def word_le_nat_alt word_less_nat_alt
        limits_nat)
  with getDirection_chain [of x y] show ?thesis by blast
qed

theorem getDirection_table_witness:
  "(dead 30000 \<and> (5 :: uint16) < LOWER_LIMIT \<and> getDirection 5 30000 = RIGHT)
 \<and> (dead 30000 \<and> (60000 :: uint16) > UPPER_LIMIT \<and> getDirection 60000 30000 = LEFT)
 \<and> (dead 30000 \<and> (5 :: uint16) < LOWER_LIMIT \<and> getDirection 30000 5 = DOWN)
 \<and> (dead 30000 \<and> (60000 :: uint16) > UPPER_LIMIT \<and> getDirection 30000 60000 = UP)
 \<and> (live 5 \<and> live 60000 \<and> getDirection 5 60000 = RIGHT)
 \<and> (dead 30000 \<and> dead 30000 \<and> getDirection 30000 30000 = NONE)"
proof -
  have d: "dead 30000" and l: "live 5" "live 60000"
    and c: "(5 :: uint16) < LOWER_LIMIT" "(60000 :: uint16) > UPPER_LIMIT"
    by (simp_all add: dead_def live_def limits)
  from getDirection_table [of 30000 5] getDirection_table [of 30000 60000]
    getDirection_table [of 5 30000] getDirection_table [of 60000 30000]
    getDirection_table [of 60000 5] getDirection_table [of 30000 30000] d l c
  show ?thesis by (simp add: directions limits)
qed

section \<open>Moving the player\<close>

lemma movePlayer_off_board:
  assumes x: "playerX s < 8" and y: "playerY s < 8" and off: "\<not> onBoard (stepFrom d s)"
  shows "movePlayer d s = s"
proof -
  consider (up) "d = UP" | (down) "d = DOWN" | (left) "d = LEFT" | (right) "d = RIGHT"
    | (none) "d \<noteq> UP" "d \<noteq> DOWN" "d \<noteq> LEFT" "d \<noteq> RIGHT"
    by blast
  then show ?thesis
  proof cases
    case up
    with off on_board_up [OF x y] show ?thesis by (simp add: movePlayer_def)
  next
    case down
    with off on_board_down [OF x y] show ?thesis
      by (simp add: movePlayer_def directions_distinct)
  next
    case left
    with off on_board_left [OF x y] show ?thesis
      by (simp add: movePlayer_def directions_distinct)
  next
    case right
    with off on_board_right [OF x y] show ?thesis
      by (simp add: movePlayer_def directions_distinct)
  next
    case none
    then show ?thesis by (simp add: movePlayer_def)
  qed
qed

lemma facing_changes_with_position:
  assumes "lastMoveDirection (movePlayer d s) \<noteq> lastMoveDirection s"
  shows "(playerX (movePlayer d s), playerY (movePlayer d s)) \<noteq> (playerX s, playerY s)"
  using assms by (simp add: movePlayer_def directions_distinct split: if_splits)

lemma movePlayer_keeps:
  "hazards (movePlayer d s) = hazards s" "visited (movePlayer d s) = visited s"
  "isInPlay (movePlayer d s) = isInPlay s"
  by (simp_all add: movePlayer_def)

text \<open>
  C9. For a player on the board and any decoded direction, a move whose destination
  is off the 8x8 board changes nothing: the position and the facing stay as they were.
  The facing changes only when the position changes.
\<close>

theorem move_off_board:
  assumes "playerX s < 8" and "playerY s < 8"
  shows "(\<not> onBoard (stepFrom d s) \<longrightarrow> movePlayer d s = s)
       \<and> (lastMoveDirection (movePlayer d s) \<noteq> lastMoveDirection s \<longrightarrow>
            (playerX (movePlayer d s), playerY (movePlayer d s)) \<noteq> (playerX s, playerY s))"
  using movePlayer_off_board [OF assms] facing_changes_with_position by blast

theorem move_off_board_witness:
  "playerX cave < 8 \<and> playerY cave < 8
 \<and> \<not> onBoard (stepFrom DOWN cave) \<and> movePlayer DOWN cave = cave
 \<and> lastMoveDirection (movePlayer RIGHT cave) \<noteq> lastMoveDirection cave
 \<and> (playerX (movePlayer RIGHT cave), playerY (movePlayer RIGHT cave))
      \<noteq> (playerX cave, playerY cave)"
proof -
  have h1: "playerX cave < 8" and h2: "playerY cave < 8"
    by (simp_all add: cave_def initial_def)
  have h3: "\<not> onBoard (stepFrom DOWN cave)"
    by (simp add: onBoard_def stepFrom_def cave_def initial_def directions)
  have h4: "lastMoveDirection (movePlayer RIGHT cave) \<noteq> lastMoveDirection cave"
    by (simp add: movePlayer_def cave_def initial_def directions)
  from move_off_board [OF h1 h2, of DOWN] move_off_board [OF h1 h2, of RIGHT] h1 h2 h3 h4
  show ?thesis by blast
qed

section \<open>The movement gate\<close>

lemma checkJoystick_centred:
  "centred (x, y) \<Longrightarrow> checkJoystick x y s = (False, s\<lparr>isJoystickCentred := True\<rparr>)"
  by (auto simp: checkJoystick_def centred_def dead_def word_le_nat_alt word_less_nat_alt)

lemma checkJoystick_off:
  "\<not> centred (x, y) \<Longrightarrow>
     checkJoystick x y s =
       (if isJoystickCentred s then (True, s\<lparr>isJoystickCentred := False\<rparr>) else (False, s))"
  by (auto simp: checkJoystick_def centred_def dead_def word_le_nat_alt word_less_nat_alt)

lemma checkJoystick_accepts:
  "checkJoystick x y s = (True, s') \<Longrightarrow>
     \<not> centred (x, y) \<and> isJoystickCentred s \<and> s' = s\<lparr>isJoystickCentred := False\<rparr>"
  by (cases "centred (x, y)") (auto simp: checkJoystick_centred checkJoystick_off split: if_splits)

text \<open>An accepted reading always decodes to one of the four directions.\<close>

lemma accepted_has_direction:
  "\<not> centred (x, y) \<Longrightarrow> getDirection x y \<in> {UP, DOWN, LEFT, RIGHT}"
  by (simp add: getDirection_chain centred_def dead_def word_le_nat_alt word_less_nat_alt
      limits_nat) linarith

lemma gate_closed_until_centred:
  "\<not> isJoystickCentred s \<Longrightarrow> k < length ps \<Longrightarrow> pollJoystick ps s ! k \<Longrightarrow>
     \<exists>j<k. centred (ps ! j)"
proof (induction ps arbitrary: s k)
  case Nil
  then show ?case by simp
next
  case (Cons p ps)
  show ?case
  proof (cases "centred p")
    case True
    then have "checkJoystick (fst p) (snd p) s = (False, s\<lparr>isJoystickCentred := True\<rparr>)"
      using checkJoystick_centred [of "fst p" "snd p" s] by simp
    with Cons.prems have "k \<noteq> 0" by (cases k) auto
    with True show ?thesis by (intro exI [of _ 0]) simp
  next
    case False
    then have step: "checkJoystick (fst p) (snd p) s = (False, s)"
      using checkJoystick_off [of "fst p" "snd p" s] Cons.prems(1) by simp
    with Cons.prems obtain k' where k: "k = Suc k'" by (cases k) auto
    with Cons.prems step have "k' < length ps" and "pollJoystick ps s ! k'" by auto
    from Cons.IH [OF Cons.prems(1) this] obtain j where "j < k'" and "centred (ps ! j)" by blast
    with k show ?thesis by (intro exI [of _ "Suc j"]) simp
  qed
qed

lemma gate_stays_closed:
  "\<not> isJoystickCentred s \<Longrightarrow> \<forall>p\<in>set ps. \<not> centred p \<Longrightarrow> filter id (pollJoystick ps s) = []"
proof (induction ps arbitrary: s)
  case Nil
  then show ?case by simp
next
  case (Cons p ps)
  then have "checkJoystick (fst p) (snd p) s = (False, s)"
    using checkJoystick_off [of "fst p" "snd p" s] by simp
  with Cons show ?case by simp
qed

text \<open>
  C7. The movement gate is edge-triggered. A poll that the gate accepts reads off
  centre; after it no later poll is accepted until some poll has read both axes inside
  the limits; and while every later poll stays off centre, the accepted poll is the
  only one of the excursion: exactly one Move event.
\<close>

theorem gate_edge_triggered:
  assumes "checkJoystick x y s = (True, s')"
  shows "\<not> centred (x, y)
       \<and> (\<forall>k<length ps. pollJoystick ps s' ! k \<longrightarrow> (\<exists>j<k. centred (ps ! j)))
       \<and> ((\<forall>p\<in>set ps. \<not> centred p) \<longrightarrow> length (filter id (pollJoystick ((x, y) # ps) s)) = 1)"
proof -
  from checkJoystick_accepts [OF assms]
  have off: "\<not> centred (x, y)" and s': "\<not> isJoystickCentred s'" by simp_all
  have "\<exists>j<k. centred (ps ! j)" if "k < length ps" "pollJoystick ps s' ! k" for k
    using gate_closed_until_centred [OF s' that] .
  moreover have "length (filter id (pollJoystick ((x, y) # ps) s)) = 1"
    if "\<forall>p\<in>set ps. \<not> centred p"
    using gate_stays_closed [OF s' that] assms by simp
  ultimately show ?thesis using off by blast
qed

theorem gate_edge_triggered_witness:
  "checkJoystick 5 30000 initial = (True, initial\<lparr>isJoystickCentred := False\<rparr>)
 \<and> \<not> centred (5, 30000) \<and> \<not> centred (6, 30000)
 \<and> length (filter id (pollJoystick ((5, 30000) # [(5, 30000), (6, 30000)]) initial)) = 1
 \<and> 2 < length [(5 :: uint16, 30000 :: uint16), (30000, 30000), (5, 30000)]
 \<and> pollJoystick [(5, 30000), (30000, 30000), (5, 30000)] (initial\<lparr>isJoystickCentred := False\<rparr>) ! 2
 \<and> (\<exists>j<2. centred ([(5, 30000), (30000, 30000), (5, 30000)] ! j))"
proof -
  have h: "checkJoystick 5 30000 initial = (True, initial\<lparr>isJoystickCentred := False\<rparr>)"
    by (simp add: checkJoystick_def initial_def limits)
  have off: "\<forall>p\<in>set [(5, 30000), (6, 30000)]. \<not> centred p"
    by (simp add: centred_def dead_def limits)
  have len: "2 < length [(5 :: uint16, 30000 :: uint16), (30000, 30000), (5, 30000)]" by simp
  have acc: "pollJoystick [(5, 30000), (30000, 30000), (5, 30000)]
      (initial\<lparr>isJoystickCentred := False\<rparr>) ! 2"
    by (simp add: checkJoystick_def initial_def limits)
  from gate_edge_triggered [OF h, of "[(5, 30000), (6, 30000)]"]
    gate_edge_triggered [OF h, of "[(5, 30000), (30000, 30000), (5, 30000)]"]
    h off len acc
  show ?thesis by simp
qed

section \<open>Shooting the arrow\<close>









section \<open>Carried off by a bat\<close>

lemma dropPlayer_lands:
  "dropPlayer hz ds = Inr (x, y, ds') \<Longrightarrow> x < 8 \<and> y < 8 \<and> hz (unat x) (unat y) = EMPTY"
proof (induction hz ds rule: dropPlayer.induct)
  case (1 hz d1 d2 ds)
  show ?case
  proof (cases "hz (unat (drawn d1 mod 8)) (unat (drawn d2 mod 8)) = EMPTY")
    case True
    with "1.prems" drawn_mod_8 [of d1] drawn_mod_8 [of d2] show ?thesis
      by (auto simp: irandom_0_8 cell_def)
  next
    case False
    with "1.prems" have "dropPlayer hz ds = Inr (x, y, ds')"
      by (simp add: irandom_0_8 cell_def drawn_mod_8)
    with False show ?thesis
      by (intro "1.IH" [OF irandom_0_8 irandom_0_8]) (simp_all add: cell_def drawn_mod_8)
  qed
qed simp_all

lemma dropPlayer_returns:
  "someDrop hz ds \<Longrightarrow> \<exists>x y ds'. dropPlayer hz ds = Inr (x, y, ds')"
proof (induction hz ds rule: dropPlayer.induct)
  case (1 hz d1 d2 ds)
  show ?case
  proof (cases "hz (unat (drawn d1 mod 8)) (unat (drawn d2 mod 8)) = EMPTY")
    case True
    then show ?thesis by (simp add: irandom_0_8 cell_def drawn_mod_8)
  next
    case False
    with "1.prems" have "someDrop hz ds" by simp
    with False have "\<exists>x y ds'. dropPlayer hz ds = Inr (x, y, ds')"
      by (intro "1.IH" [OF irandom_0_8 irandom_0_8]) (simp_all add: cell_def drawn_mod_8)
    with False show ?thesis by (simp add: irandom_0_8 cell_def drawn_mod_8)
  qed
qed simp_all

lemma checkHazards_bat:
  assumes "cell (hazards s) (playerX s) (playerY s) = Inr BAT"
  shows "checkHazards s ds =
     (case dropPlayer (hazards s) ds of
        Inl e \<Rightarrow> Inl e
      | Inr (x, y, ds') \<Rightarrow> Inr (False, (grabbedByBatAnimation s)\<lparr>playerX := x, playerY := y\<rparr>, ds'))"
  using assms by (simp add: checkHazards_def)

lemma drawnSquare_0: "drawnSquare (d1 # d2 # ds) 0 = (drawn d1 mod 8, drawn d2 mod 8)"
  by (simp add: drawnSquare_def)

lemma drawnSquare_Suc: "drawnSquare (d1 # d2 # ds) (Suc k) = drawnSquare ds k"
  by (simp add: drawnSquare_def)

lemma dropPlayer_step:
  "dropPlayer hz (d1 # d2 # ds) =
     (if emptyAt hz (drawn d1 mod 8, drawn d2 mod 8)
      then Inr (drawn d1 mod 8, drawn d2 mod 8, ds) else dropPlayer hz ds)"
  by (simp add: irandom_0_8 cell_def drawn_mod_8 emptyAt_def)

lemma dropPlayer_sampled:
  "dropPlayer hz ds = Inr (x, y, ds') \<Longrightarrow>
     \<exists>k. 2 * k + 2 \<le> length ds \<and> (\<forall>i<k. \<not> emptyAt hz (drawnSquare ds i))
        \<and> emptyAt hz (drawnSquare ds k) \<and> (x, y) = drawnSquare ds k \<and> ds' = drop (2 * k + 2) ds"
proof (induction hz ds rule: dropPlayer.induct)
  case (1 hz d1 d2 ds)
  show ?case
  proof (cases "emptyAt hz (drawn d1 mod 8, drawn d2 mod 8)")
    case True
    with "1.prems" have "(x, y) = drawnSquare (d1 # d2 # ds) 0" "ds' = ds"
      by (simp_all add: dropPlayer_step drawnSquare_0 del: dropPlayer.simps)
    with True have "2 * 0 + 2 \<le> length (d1 # d2 # ds)
        \<and> (\<forall>i<0. \<not> emptyAt hz (drawnSquare (d1 # d2 # ds) i))
        \<and> emptyAt hz (drawnSquare (d1 # d2 # ds) 0) \<and> (x, y) = drawnSquare (d1 # d2 # ds) 0
        \<and> ds' = drop (2 * 0 + 2) (d1 # d2 # ds)"
      by (simp add: drawnSquare_0)
    then show ?thesis by blast
  next
    case False
    with "1.prems" have r: "dropPlayer hz ds = Inr (x, y, ds')"
      by (simp add: dropPlayer_step del: dropPlayer.simps)
    from False have ne: "hz (unat (drawn d1 mod 8)) (unat (drawn d2 mod 8)) \<noteq> EMPTY"
      by (simp add: emptyAt_def)
    have "\<exists>k. 2 * k + 2 \<le> length ds \<and> (\<forall>i<k. \<not> emptyAt hz (drawnSquare ds i))
        \<and> emptyAt hz (drawnSquare ds k) \<and> (x, y) = drawnSquare ds k \<and> ds' = drop (2 * k + 2) ds"
      using ne r
      by (intro "1.IH" [OF irandom_0_8 irandom_0_8]) (simp_all add: cell_def drawn_mod_8)
    then obtain k where k: "2 * k + 2 \<le> length ds" "\<forall>i<k. \<not> emptyAt hz (drawnSquare ds i)"
      "emptyAt hz (drawnSquare ds k)" "(x, y) = drawnSquare ds k" "ds' = drop (2 * k + 2) ds"
      by blast
    have "\<not> emptyAt hz (drawnSquare (d1 # d2 # ds) i)" if "i < Suc k" for i
    proof (cases i)
      case 0
      with False show ?thesis by (simp add: drawnSquare_0)
    next
      case (Suc j)
      with that k(2) show ?thesis by (simp add: drawnSquare_Suc)
    qed
    with k have "2 * Suc k + 2 \<le> length (d1 # d2 # ds)
        \<and> (\<forall>i<Suc k. \<not> emptyAt hz (drawnSquare (d1 # d2 # ds) i))
        \<and> emptyAt hz (drawnSquare (d1 # d2 # ds) (Suc k))
        \<and> (x, y) = drawnSquare (d1 # d2 # ds) (Suc k)
        \<and> ds' = drop (2 * Suc k + 2) (d1 # d2 # ds)"
      by (simp add: drawnSquare_Suc)
    then show ?thesis by blast
  qed
qed simp_all

lemma dropPlayer_exhausted:
  "\<not> someDrop hz ds \<Longrightarrow> dropPlayer hz ds = Inl DrawsExhausted"
proof (induction hz ds rule: dropPlayer.induct)
  case (1 hz d1 d2 ds)
  from "1.prems" have ne: "hz (unat (drawn d1 mod 8)) (unat (drawn d2 mod 8)) \<noteq> EMPTY"
    and rest: "\<not> someDrop hz ds" by simp_all
  have "dropPlayer hz ds = Inl DrawsExhausted"
    using ne rest
    by (intro "1.IH" [OF irandom_0_8 irandom_0_8]) (simp_all add: cell_def drawn_mod_8)
  with ne show ?case by (simp add: dropPlayer_step emptyAt_def del: dropPlayer.simps)
qed simp_all


lemma dropPlayer_at:
  "2 * k + 2 \<le> length ds \<Longrightarrow> \<forall>i<k. \<not> emptyAt hz (drawnSquare ds i) \<Longrightarrow>
   emptyAt hz (drawnSquare ds k) \<Longrightarrow>
     dropPlayer hz ds = Inr (fst (drawnSquare ds k), snd (drawnSquare ds k), drop (2 * k + 2) ds)"
proof (induction k arbitrary: ds)
  case 0
  then obtain d1 d2 ds0 where ds: "ds = d1 # d2 # ds0"
    by (cases ds; cases "tl ds") auto
  with "0.prems"(3) show ?case
    by (simp add: dropPlayer_step drawnSquare_0 del: dropPlayer.simps)
next
  case (Suc k)
  then obtain d1 d2 ds0 where ds: "ds = d1 # d2 # ds0"
    by (cases ds; cases "tl ds") auto
  from Suc.prems(2) have "\<not> emptyAt hz (drawnSquare ds 0)" by simp
  with ds have head: "\<not> emptyAt hz (drawn d1 mod 8, drawn d2 mod 8)"
    by (simp add: drawnSquare_0)
  have rest: "\<forall>i<k. \<not> emptyAt hz (drawnSquare ds0 i)"
  proof (intro allI impI)
    fix i assume "i < k"
    then have "Suc i < Suc k" by simp
    with Suc.prems(2) have "\<not> emptyAt hz (drawnSquare ds (Suc i))" by blast
    with ds show "\<not> emptyAt hz (drawnSquare ds0 i)" by (simp add: drawnSquare_Suc)
  qed
  from Suc.prems(1) ds have len: "2 * k + 2 \<le> length ds0" by simp
  from Suc.prems(3) ds have "emptyAt hz (drawnSquare ds0 k)" by (simp add: drawnSquare_Suc)
  from Suc.IH [OF len rest this] head ds show ?case
    by (simp add: dropPlayer_step drawnSquare_Suc del: dropPlayer.simps)
qed

lemma movePlayer_cues: "cues (movePlayer d s) = cues s"
  by (simp add: movePlayer_def)

lemma bat_drop:
  assumes bat: "cell (hazards s) (playerX s) (playerY s) = Inr BAT"
    and res: "checkHazards s ds = Inr (isDead, s', ds')"
  shows "\<not> isDead \<and> isInPlay s' = isInPlay s \<and> hazards s' = hazards s \<and> visited s' = visited s
       \<and> cell (hazards s') (playerX s') (playerY s') = Inr EMPTY
       \<and> (playerX s', playerY s') \<noteq> (playerX s, playerY s)
       \<and> s' = s\<lparr>cues := GrabbedByBat # cues s, playerX := playerX s', playerY := playerY s'\<rparr>
       \<and> (\<exists>k. 2 * k + 2 \<le> length ds \<and> (\<forall>i<k. \<not> emptyAt (hazards s) (drawnSquare ds i))
              \<and> (playerX s', playerY s') = drawnSquare ds k \<and> ds' = drop (2 * k + 2) ds)"
proof -
  from res obtain x y where d: "dropPlayer (hazards s) ds = Inr (x, y, ds')"
    and s': "s' = (grabbedByBatAnimation s)\<lparr>playerX := x, playerY := y\<rparr>" and dd: "\<not> isDead"
    by (auto simp: checkHazards_bat [OF bat] split: sum.splits)
  from dropPlayer_lands [OF d] have l: "x < 8" "y < 8" "hazards s (unat x) (unat y) = EMPTY"
    by simp_all
  from bat have b: "hazards s (unat (playerX s)) (unat (playerY s)) = BAT"
    by (simp add: cell_eq_iff)
  from l(3) b have ne: "(x, y) \<noteq> (playerX s, playerY s)"
    using markers_distinct(1) by auto
  from dropPlayer_sampled [OF d] s'
  have k: "\<exists>k. 2 * k + 2 \<le> length ds \<and> (\<forall>i<k. \<not> emptyAt (hazards s) (drawnSquare ds i))
              \<and> (playerX s', playerY s') = drawnSquare ds k \<and> ds' = drop (2 * k + 2) ds"
    by (simp add: cue_defs) blast
  from ne l dd s' have "\<not> isDead \<and> isInPlay s' = isInPlay s \<and> hazards s' = hazards s
       \<and> visited s' = visited s
       \<and> cell (hazards s') (playerX s') (playerY s') = Inr EMPTY
       \<and> (playerX s', playerY s') \<noteq> (playerX s, playerY s)
       \<and> s' = s\<lparr>cues := GrabbedByBat # cues s, playerX := playerX s', playerY := playerY s'\<rparr>"
    by (simp add: cell_eq_iff cue_defs)
  with k show ?thesis by blast
qed

lemma bat_drop_at:
  assumes bat: "cell (hazards s) (playerX s) (playerY s) = Inr BAT"
    and len: "2 * k + 2 \<le> length ds"
    and rej: "\<forall>i<k. \<not> emptyAt (hazards s) (drawnSquare ds i)"
    and emp: "emptyAt (hazards s) (drawnSquare ds k)"
  shows "checkHazards s ds =
           Inr (False, s\<lparr>cues := GrabbedByBat # cues s, playerX := fst (drawnSquare ds k),
                         playerY := snd (drawnSquare ds k)\<rparr>, drop (2 * k + 2) ds)"
  by (simp add: checkHazards_bat [OF bat] dropPlayer_at [OF len rej emp] cue_defs)

lemma bat_exhausted:
  assumes bat: "cell (hazards s) (playerX s) (playerY s) = Inr BAT"
    and none: "\<not> someDrop (hazards s) ds"
  shows "checkHazards s ds = Inl DrawsExhausted"
  by (simp add: checkHazards_bat [OF bat] dropPlayer_exhausted [OF none])

lemma tick_move:
  "checkJoystick (pinX p) (pinY p) s = (True, s1) \<Longrightarrow>
     tick p s ds =
       (case markVisited s1 of
          Inl e \<Rightarrow> Inl e
        | Inr s2 \<Rightarrow> checkHazards (movePlayer (getDirection (pinX p) (pinY p)) s2) ds)"
  by (simp add: tick_def)

lemma markVisited_Inr:
  "markVisited s = Inr s' \<Longrightarrow>
     playerX s < 8 \<and> playerY s < 8
     \<and> s' = s\<lparr>visited := put (visited s) (unat (playerX s)) (unat (playerY s)) True\<rparr>"
  by (auto simp: markVisited_def set_cell_def split: if_splits)

text \<open>
  C5. A poll that is accepted as a move and takes the player onto a Bat square: every
  result of that pass of the loop leaves the round running (\<open>isDead\<close> is false,
  \<open>isInPlay\<close> and the phase are as before, the loop goes on), leaves the hazards as
  they were, puts the player on a square that is Empty in the hazards grid and so is
  not the Bat square, and clears no visited entry; the square the player left is
  marked visited. The landing square is the one the rejection sampling picks: the first
  pair of draws, each reduced modulo 8, that names an Empty square, every earlier pair
  having named a square that is not Empty; exactly the pairs up to that one are consumed,
  and nothing else of the state changes but the bat's animation being played.
  Conversely, whenever the pair number \<open>k\<close> is the first to name an Empty square, the
  pass returns exactly that state. The pass does return as soon as one pair of draws
  lands on an Empty square, and when no pair does, the draws run out.
\<close>

theorem bat_relocates:
  assumes acc: "checkJoystick (pinX p) (pinY p) s = (True, s1)"
    and mark: "markVisited s1 = Inr s2"
    and move: "s3 = movePlayer (getDirection (pinX p) (pinY p)) s2"
    and bat: "cell (hazards s3) (playerX s3) (playerY s3) = Inr BAT"
  shows "(\<forall>isDead s' ds'. tick p s ds = Inr (isDead, s', ds') \<longrightarrow>
            \<not> isDead \<and> isInPlay s' = isInPlay s \<and> phase_of s' = phase_of s
            \<and> hazards s' = hazards s
            \<and> cell (hazards s') (playerX s') (playerY s') = Inr EMPTY
            \<and> (playerX s', playerY s') \<noteq> (playerX s3, playerY s3)
            \<and> (\<forall>i j. visited s i j \<longrightarrow> visited s' i j)
            \<and> visited s' (unat (playerX s)) (unat (playerY s))
            \<and> (isInPlay s \<longrightarrow> gameLoop_from (p # ps) s ds = gameLoop_from ps s' ds')
            \<and> s' = s3\<lparr>cues := GrabbedByBat # cues s, playerX := playerX s', playerY := playerY s'\<rparr>
            \<and> (\<exists>k. 2 * k + 2 \<le> length ds
                  \<and> (\<forall>i<k. \<not> emptyAt (hazards s) (drawnSquare ds i))
                  \<and> (playerX s', playerY s') = drawnSquare ds k
                  \<and> ds' = drop (2 * k + 2) ds))
       \<and> (\<forall>k. 2 * k + 2 \<le> length ds \<and> (\<forall>i<k. \<not> emptyAt (hazards s) (drawnSquare ds i))
              \<and> emptyAt (hazards s) (drawnSquare ds k) \<longrightarrow>
            tick p s ds =
              Inr (False, s3\<lparr>cues := GrabbedByBat # cues s, playerX := fst (drawnSquare ds k),
                             playerY := snd (drawnSquare ds k)\<rparr>, drop (2 * k + 2) ds))
       \<and> (someDrop (hazards s) ds \<longrightarrow> (\<exists>s' ds'. tick p s ds = Inr (False, s', ds')))
       \<and> (\<not> someDrop (hazards s) ds \<longrightarrow> tick p s ds = Inl DrawsExhausted)"
proof -
  from checkJoystick_accepts [OF acc] have s1: "s1 = s\<lparr>isJoystickCentred := False\<rparr>" by simp
  from markVisited_Inr [OF mark] s1
  have s2: "s2 = s1\<lparr>visited := put (visited s) (unat (playerX s)) (unat (playerY s)) True\<rparr>"
    by simp
  have t: "tick p s ds = checkHazards s3 ds"
    by (simp add: tick_move [OF acc] mark move)
  have keep: "hazards s3 = hazards s" "isInPlay s3 = isInPlay s"
    "visited s3 = put (visited s) (unat (playerX s)) (unat (playerY s)) True"
    "cues s3 = cues s"
    by (simp_all add: move movePlayer_keeps movePlayer_cues s2 s1)
  have a: "\<not> isDead \<and> isInPlay s' = isInPlay s \<and> phase_of s' = phase_of s
            \<and> hazards s' = hazards s
            \<and> cell (hazards s') (playerX s') (playerY s') = Inr EMPTY
            \<and> (playerX s', playerY s') \<noteq> (playerX s3, playerY s3)
            \<and> (\<forall>i j. visited s i j \<longrightarrow> visited s' i j)
            \<and> visited s' (unat (playerX s)) (unat (playerY s))
            \<and> (isInPlay s \<longrightarrow> gameLoop_from (p # ps) s ds = gameLoop_from ps s' ds')
            \<and> s' = s3\<lparr>cues := GrabbedByBat # cues s, playerX := playerX s', playerY := playerY s'\<rparr>
            \<and> (\<exists>k. 2 * k + 2 \<le> length ds
                  \<and> (\<forall>i<k. \<not> emptyAt (hazards s) (drawnSquare ds i))
                  \<and> (playerX s', playerY s') = drawnSquare ds k
                  \<and> ds' = drop (2 * k + 2) ds)"
    if r: "tick p s ds = Inr (isDead, s', ds')" for isDead s' ds'
  proof -
    from r t have c: "checkHazards s3 ds = Inr (isDead, s', ds')" by simp
    note d = bat_drop [OF bat c, unfolded keep]
    from d have "\<not> isDead" "isInPlay s' = isInPlay s" "hazards s' = hazards s"
      "visited s' = put (visited s) (unat (playerX s)) (unat (playerY s)) True"
      by simp_all
    with r have "phase_of s' = phase_of s" "\<forall>i j. visited s i j \<longrightarrow> visited s' i j"
      "visited s' (unat (playerX s)) (unat (playerY s))"
      "isInPlay s \<longrightarrow> gameLoop_from (p # ps) s ds = gameLoop_from ps s' ds'"
      by (simp_all add: phase_of_def put_def)
    with d show ?thesis by blast
  qed
  have b: "tick p s ds =
              Inr (False, s3\<lparr>cues := GrabbedByBat # cues s, playerX := fst (drawnSquare ds k),
                             playerY := snd (drawnSquare ds k)\<rparr>, drop (2 * k + 2) ds)"
    if "2 * k + 2 \<le> length ds \<and> (\<forall>i<k. \<not> emptyAt (hazards s) (drawnSquare ds i))
              \<and> emptyAt (hazards s) (drawnSquare ds k)" for k
    using that bat_drop_at [OF bat, of k ds] by (simp add: t keep)
  have c: "\<exists>s' ds'. tick p s ds = Inr (False, s', ds')" if "someDrop (hazards s) ds"
  proof -
    from dropPlayer_returns [OF that] obtain x y ds'
      where "dropPlayer (hazards s) ds = Inr (x, y, ds')" by blast
    then show ?thesis by (simp add: t checkHazards_bat [OF bat] keep)
  qed
  have d: "tick p s ds = Inl DrawsExhausted" if "\<not> someDrop (hazards s) ds"
    using that bat_exhausted [OF bat, of ds] by (simp add: t keep)
  from a b c d show ?thesis by blast
qed


theorem bat_relocates_witness:
  "checkJoystick (pinX upPoll) (pinY upPoll) cave = (True, cave\<lparr>isJoystickCentred := False\<rparr>)
 \<and> cell (hazards cave) 0 1 = Inr BAT
 \<and> someDrop (hazards cave) dropDraws
 \<and> drawnSquare dropDraws 0 = (1, 0) \<and> \<not> emptyAt (hazards cave) (1, 0)
 \<and> drawnSquare dropDraws 1 = (3, 4) \<and> emptyAt (hazards cave) (3, 4)
 \<and> tick upPoll cave dropDraws =
       Inr (False,
            cave\<lparr>isJoystickCentred := False, visited := put (visited cave) 0 0 True,
                 lastMoveDirection := UP, cues := [GrabbedByBat], playerX := 3, playerY := 4\<rparr>,
            [])
 \<and> tick upPoll cave (map Hardware [1, 0, 0, 1]) = Inl DrawsExhausted"
proof -
  define s2 where "s2 = cave\<lparr>isJoystickCentred := False, visited := put (visited cave) 0 0 True\<rparr>"
  define s3 where "s3 = movePlayer (getDirection (pinX upPoll) (pinY upPoll)) s2"
  have acc: "checkJoystick (pinX upPoll) (pinY upPoll) cave
      = (True, cave\<lparr>isJoystickCentred := False\<rparr>)"
    by (simp add: checkJoystick_def upPoll_def poll_def cave_def initial_def limits)
  have mark: "markVisited (cave\<lparr>isJoystickCentred := False\<rparr>) = Inr s2"
    by (simp add: markVisited_def set_cell_def s2_def cave_def initial_def)
  have up: "getDirection (pinX upPoll) (pinY upPoll) = UP"
    by (simp add: getDirection_chain upPoll_def poll_def limits)
  then have s3: "s3 = cave\<lparr>isJoystickCentred := False, visited := put (visited cave) 0 0 True,
      playerY := 1, lastMoveDirection := UP\<rparr>"
    by (simp add: s3_def s2_def movePlayer_def cave_def initial_def)
  have b: "cell (hazards cave) 0 1 = Inr BAT"
    by (simp add: cell_def cave_def initial_def put_def)
  with s3 have bat: "cell (hazards s3) (playerX s3) (playerY s3) = Inr BAT"
    by (simp add: cave_def initial_def)
  have sq: "drawnSquare dropDraws 0 = (1, 0)" "drawnSquare dropDraws 1 = (3, 4)"
    "length dropDraws = 4"
    by (simp_all add: drawnSquare_def dropDraws_def)
  have em: "\<not> emptyAt (hazards cave) (1, 0)" "emptyAt (hazards cave) (3, 4)"
    by (simp_all add: emptyAt_def cave_def initial_def put_def markers_distinct)
  have sd: "someDrop (hazards cave) dropDraws"
    "\<not> someDrop (hazards cave) (map Hardware [1, 0, 0, 1])"
    by (simp_all add: dropDraws_def cave_def initial_def put_def markers_distinct)
  have c: "cues cave = []" by (simp add: cave_def initial_def)
  note th = bat_relocates [OF acc mark s3_def bat]
  have one: "\<forall>i<1. \<not> emptyAt (hazards cave) (drawnSquare dropDraws i)"
    using sq(1) em(1) by simp
  have "2 * 1 + 2 \<le> length dropDraws \<and> (\<forall>i<1. \<not> emptyAt (hazards cave) (drawnSquare dropDraws i))
      \<and> emptyAt (hazards cave) (drawnSquare dropDraws 1)"
    using one sq em by simp
  from th [of dropDraws "[]", THEN conjunct2, THEN conjunct1, rule_format, of 1, OF this]
  have "tick upPoll cave dropDraws =
      Inr (False, s3\<lparr>cues := GrabbedByBat # cues cave, playerX := 3, playerY := 4\<rparr>, [])"
    using sq(2) by (simp add: sq(3))
  moreover
  from th [of "map Hardware [1, 0, 0, 1]" "[]", THEN conjunct2, THEN conjunct2, THEN conjunct2,
      rule_format, OF sd(2)]
  have "tick upPoll cave (map Hardware [1, 0, 0, 1]) = Inl DrawsExhausted" .
  ultimately show ?thesis using acc b sd(1) sq em by (simp add: s3 c)
qed

section \<open>A pass of the loop\<close>

lemma checkHazards_latch:
  "checkHazards s ds = Inr (isDead, s', ds') \<Longrightarrow> isJoystickCentred s' = isJoystickCentred s"
  by (auto simp: checkHazards_def cue_defs split: sum.splits if_splits)

lemma shootArrow_latch:
  "shootArrow s = Inr s' \<Longrightarrow> isJoystickCentred s' = isJoystickCentred s"
  by (auto simp: shootArrow_def arrowAt_def cue_defs split: sum.splits if_splits)

text \<open>
  Only \<open>checkJoystick\<close> writes the latch of the gate: after any pass of the loop it is
  what the gate left.
\<close>

lemma tick_latch:
  assumes "tick p s ds = Inr (isDead, s', ds')"
  shows "isJoystickCentred s' = isJoystickCentred (snd (checkJoystick (pinX p) (pinY p) s))"
proof (cases "checkJoystick (pinX p) (pinY p) s")
  case (Pair r s1)
  show ?thesis
  proof (cases r)
    case True
    with Pair assms obtain s2 where m: "markVisited s1 = Inr s2"
      and c: "checkHazards (movePlayer (getDirection (pinX p) (pinY p)) s2) ds
                = Inr (isDead, s', ds')"
      by (auto simp: tick_def split: sum.splits)
    from m have "isJoystickCentred s2 = isJoystickCentred s1"
      by (auto simp: markVisited_def split: sum.splits)
    moreover have "isJoystickCentred (movePlayer d s2) = isJoystickCentred s2" for d
      by (simp add: movePlayer_def)
    ultimately show ?thesis using checkHazards_latch [OF c] Pair by simp
  next
    case False
    with Pair assms show ?thesis
      by (auto simp: tick_def cue_defs split: if_splits sum.splits
          dest!: shootArrow_latch)
  qed
qed

text \<open>
  A whole pass of the loop for a move into a wall, the player standing on an Empty
  square: the square is marked visited and nothing else of the round changes.
\<close>

lemma tick_into_wall:
  assumes acc: "checkJoystick (pinX p) (pinY p) s = (True, s1)"
    and x: "playerX s < 8" and y: "playerY s < 8"
    and e: "hazards s (unat (playerX s)) (unat (playerY s)) = EMPTY"
    and off: "\<not> onBoard (stepFrom (getDirection (pinX p) (pinY p)) s)"
  shows "tick p s ds =
     Inr (False,
          s\<lparr>isJoystickCentred := False,
            visited := put (visited s) (unat (playerX s)) (unat (playerY s)) True\<rparr>, ds)"
proof -
  let ?s2 = "s\<lparr>isJoystickCentred := False,
            visited := put (visited s) (unat (playerX s)) (unat (playerY s)) True\<rparr>"
  from checkJoystick_accepts [OF acc] have s1: "s1 = s\<lparr>isJoystickCentred := False\<rparr>" by simp
  have m: "markVisited s1 = Inr ?s2"
    using x y by (simp add: s1 markVisited_def set_cell_def)
  have "stepFrom d ?s2 = stepFrom d s" for d by (simp add: stepFrom_def)
  with off x y have mv: "movePlayer (getDirection (pinX p) (pinY p)) ?s2 = ?s2"
    by (intro movePlayer_off_board) simp_all
  have "checkHazards ?s2 ds = Inr (False, ?s2, ds)"
    using x y e by (simp add: checkHazards_def cell_def markers_distinct)
  with m mv show ?thesis by (simp add: tick_move [OF acc])
qed

section \<open>Sense layers\<close>

lemma markNeighbours_raw:
  "markNeighbours l i j x y \<longleftrightarrow>
     (((l x y \<or> (i < 7 \<and> x = i + 1 \<and> y = j)) \<or> (i > 0 \<and> x = i - 1 \<and> y = j))
     \<or> (j < 7 \<and> x = i \<and> y = j + 1)) \<or> (j > 0 \<and> x = i \<and> y = j - 1)"
  by (simp only: markNeighbours_def Let_def guarded_put)

lemma adjacent_raw:
  assumes "i < 8" and "j < 8"
  shows "x < 8 \<and> y < 8 \<and> adjacent x y i j \<longleftrightarrow>
     (i < 7 \<and> x = i + 1 \<and> y = j) \<or> (i > 0 \<and> x = i - 1 \<and> y = j)
     \<or> (j < 7 \<and> x = i \<and> y = j + 1) \<or> (j > 0 \<and> x = i \<and> y = j - 1)"
  unfolding adjacent_def using assms by auto

lemma markNeighbours_iff:
  assumes "i < 8" and "j < 8"
  shows "markNeighbours l i j x y \<longleftrightarrow> l x y \<or> (x < 8 \<and> y < 8 \<and> adjacent x y i j)"
  by (simp only: markNeighbours_raw adjacent_raw [OF assms] disj_assoc)

lemma hazards_senseCell: "hazards (senseCell i j s) = hazards s"
  by (simp add: senseCell_def)

lemma senseCell_stink:
  assumes "i < 8" and "j < 8"
  shows "stinkLayer (senseCell i j s) x y \<longleftrightarrow>
           stinkLayer s x y \<or> (hazards s i j = WUMPUS \<and> x < 8 \<and> y < 8 \<and> adjacent x y i j)"
  by (simp add: senseCell_def markNeighbours_iff [OF assms])

lemma senseCell_draught:
  assumes "i < 8" and "j < 8"
  shows "draughtLayer (senseCell i j s) x y \<longleftrightarrow>
           draughtLayer s x y \<or> (hazards s i j = PIT \<and> x < 8 \<and> y < 8 \<and> adjacent x y i j)"
  by (simp add: senseCell_def markNeighbours_iff [OF assms] markers_distinct)

lemma senseCell_sound:
  assumes "i < 8" and "j < 8"
  shows "soundLayer (senseCell i j s) x y \<longleftrightarrow>
           soundLayer s x y \<or> (hazards s i j = BAT \<and> x < 8 \<and> y < 8 \<and> adjacent x y i j)"
  by (simp add: senseCell_def markNeighbours_iff [OF assms] markers_distinct)

text \<open>
  The scan of one row and of all rows, for any layer \<open>L\<close> that \<open>senseCell\<close> marks around
  the squares holding marker \<open>k\<close>.
\<close>

lemma hazards_fold_row: "hazards (fold (senseCell i) js s) = hazards s"
  by (induction js arbitrary: s) (simp_all add: hazards_senseCell)

lemma hazards_fold_rows: "hazards (fold (\<lambda>i. fold (senseCell i) js) rows s) = hazards s"
  by (induction rows arbitrary: s) (simp_all add: hazards_fold_row)

lemma hazards_senseLoops: "hazards (senseLoops s) = hazards s"
  by (simp add: senseLoops_def hazards_fold_rows)

lemma fold_row_marks:
  assumes step: "\<And>i j s x y. i < 8 \<Longrightarrow> j < 8 \<Longrightarrow>
      L (senseCell i j s) x y \<longleftrightarrow>
        L s x y \<or> (hazards s i j = k \<and> x < 8 \<and> y < 8 \<and> adjacent x y i j)"
    and i: "i < 8" and js: "\<forall>j\<in>set js. j < 8"
  shows "L (fold (senseCell i) js s) x y \<longleftrightarrow>
           L s x y \<or> (\<exists>j\<in>set js. hazards s i j = k \<and> x < 8 \<and> y < 8 \<and> adjacent x y i j)"
  using js
proof (induction js arbitrary: s)
  case Nil
  then show ?case by simp
next
  case (Cons j js)
  then have j: "j < 8" and rest: "\<forall>j\<in>set js. j < 8" by simp_all
  show ?case
    by (simp add: Cons.IH [OF rest] step [OF i j] hazards_senseCell; blast)
qed

lemma fold_rows_marks:
  assumes step: "\<And>i j s x y. i < 8 \<Longrightarrow> j < 8 \<Longrightarrow>
      L (senseCell i j s) x y \<longleftrightarrow>
        L s x y \<or> (hazards s i j = k \<and> x < 8 \<and> y < 8 \<and> adjacent x y i j)"
    and rows: "\<forall>i\<in>set rows. i < 8" and js: "\<forall>j\<in>set js. j < 8"
  shows "L (fold (\<lambda>i. fold (senseCell i) js) rows s) x y \<longleftrightarrow>
           L s x y
           \<or> (\<exists>i\<in>set rows. \<exists>j\<in>set js. hazards s i j = k \<and> x < 8 \<and> y < 8 \<and> adjacent x y i j)"
  using rows
proof (induction rows arbitrary: s)
  case Nil
  then show ?case by simp
next
  case (Cons i rows)
  then have i: "i < 8" and rest: "\<forall>i\<in>set rows. i < 8" by simp_all
  show ?case
    by (simp add: Cons.IH [OF rest] fold_row_marks [of L k, OF step i js] hazards_fold_row;
        blast)
qed

lemma near_iff: "near g k x y \<longleftrightarrow> (\<exists>i<8. \<exists>j<8. adjacent x y i j \<and> g i j = k)"
  by (simp add: near_def all_cells_def list_ex_iff Bex_def; blast)

lemma senseLoops_marks:
  assumes step: "\<And>i j s x y. i < 8 \<Longrightarrow> j < 8 \<Longrightarrow>
      L (senseCell i j s) x y \<longleftrightarrow>
        L s x y \<or> (hazards s i j = k \<and> x < 8 \<and> y < 8 \<and> adjacent x y i j)"
    and "x < 8" and "y < 8"
  shows "L (senseLoops s) x y \<longleftrightarrow> L s x y \<or> near (hazards s) k x y"
proof -
  have "\<forall>i\<in>set [0..<8]. i < (8 :: nat)" by simp
  from fold_rows_marks [where L = L and k = k and s = s and x = x and y = y, OF step this this]
  have "L (senseLoops s) x y \<longleftrightarrow>
      L s x y \<or> (\<exists>i<8. \<exists>j<8. hazards s i j = k \<and> x < 8 \<and> y < 8 \<and> adjacent x y i j)"
    by (simp add: senseLoops_def Bex_def)
  with assms(2,3) show ?thesis by (simp add: near_iff; blast)
qed

section \<open>World generation\<close>

lemma rollAccepts_iff:
  "x < 8 \<Longrightarrow> y < 8 \<Longrightarrow>
     rollAccepts s x y =
       Inr (hazards s (unat x) (unat y) = EMPTY \<and> x \<noteq> playerX s \<and> y \<noteq> playerY s)"
  by (simp add: rollAccepts_def cell_def)

lemma rollCell_accepts:
  "rollCell s ds = Inr (x, y, ds') \<Longrightarrow>
     x < 8 \<and> y < 8 \<and> hazards s (unat x) (unat y) = EMPTY \<and> x \<noteq> playerX s \<and> y \<noteq> playerY s"
proof (induction s ds rule: rollCell.induct)
  case (1 s d1 d2 ds)
  let ?x = "drawn d1 mod 8" and ?y = "drawn d2 mod 8"
  have acc: "rollAccepts s ?x ?y =
      Inr (hazards s (unat ?x) (unat ?y) = EMPTY \<and> ?x \<noteq> playerX s \<and> ?y \<noteq> playerY s)"
    by (simp add: rollAccepts_def cell_def drawn_mod_8)
  show ?case
  proof (cases "hazards s (unat ?x) (unat ?y) = EMPTY \<and> ?x \<noteq> playerX s \<and> ?y \<noteq> playerY s")
    case True
    with "1.prems" drawn_mod_8 [of d1] drawn_mod_8 [of d2] show ?thesis
      by (auto simp: irandom_0_8 acc)
  next
    case False
    with "1.prems" have "rollCell s ds = Inr (x, y, ds')"
      by (simp add: irandom_0_8 acc)
    with False show ?thesis
      by (intro "1.IH" [OF irandom_0_8 irandom_0_8 acc]) simp_all
  qed
qed simp_all

lemma rollHazards_loop_frame:
  "rollHazards_loop n t s ds = Inr (s', ds') \<Longrightarrow> s' = s\<lparr>hazards := hazards s'\<rparr>"
proof (induction n arbitrary: s ds)
  case 0
  then show ?case by simp
next
  case (Suc n)
  from Suc.prems obtain x y ds1 h where "rollCell s ds = Inr (x, y, ds1)"
    and "set_cell (hazards s) x y t = Inr h"
    and r: "rollHazards_loop n t (s\<lparr>hazards := h\<rparr>) ds1 = Inr (s', ds')"
    by (auto split: sum.splits)
  from Suc.IH [OF r] have "s' = s\<lparr>hazards := h, hazards := hazards s'\<rparr>" .
  then show ?case by simp
qed

lemma rollHazards_keeps:
  assumes "rollHazards t c s ds = Inr (s', ds')"
  shows "stinkLayer s' = stinkLayer s" and "draughtLayer s' = draughtLayer s"
    and "soundLayer s' = soundLayer s" and "visited s' = visited s"
    and "playerX s' = playerX s" and "playerY s' = playerY s"
    and "lastMoveDirection s' = lastMoveDirection s"
proof -
  from assms have e: "s' = s\<lparr>hazards := hazards s'\<rparr>"
    unfolding rollHazards_def by (rule rollHazards_loop_frame)
  have "stinkLayer s' = stinkLayer (s\<lparr>hazards := hazards s'\<rparr>)" using e by (rule arg_cong)
  then show "stinkLayer s' = stinkLayer s" by simp
  have "draughtLayer s' = draughtLayer (s\<lparr>hazards := hazards s'\<rparr>)" using e by (rule arg_cong)
  then show "draughtLayer s' = draughtLayer s" by simp
  have "soundLayer s' = soundLayer (s\<lparr>hazards := hazards s'\<rparr>)" using e by (rule arg_cong)
  then show "soundLayer s' = soundLayer s" by simp
  have "visited s' = visited (s\<lparr>hazards := hazards s'\<rparr>)" using e by (rule arg_cong)
  then show "visited s' = visited s" by simp
  have "playerX s' = playerX (s\<lparr>hazards := hazards s'\<rparr>)" using e by (rule arg_cong)
  then show "playerX s' = playerX s" by simp
  have "playerY s' = playerY (s\<lparr>hazards := hazards s'\<rparr>)" using e by (rule arg_cong)
  then show "playerY s' = playerY s" by simp
  have "lastMoveDirection s' = lastMoveDirection (s\<lparr>hazards := hazards s'\<rparr>)"
    using e by (rule arg_cong)
  then show "lastMoveDirection s' = lastMoveDirection s" by simp
qed

lemma createWorld_Inr:
  assumes "createWorld s ds = Inr (w, ds')"
  obtains d0 d1 ds1 r px py bats s2 d2 ds3 pits s3 ds4 s4 where
    "ds = d0 # d1 # ds1" "irandom d0 0 4 = Inr r"
    "elem startPoints (push_bit 1 r) = Inr px" "elem startPoints (push_bit 1 r + 1) = Inr py"
    "irandom d1 1 4 = Inr bats"
    "rollHazards BAT bats
       (clearBoards (s\<lparr>playerX := px, playerY := py,
                       lastMoveDirection := (if py = 0 then UP else DOWN)\<rparr>)) ds1
       = Inr (s2, d2 # ds3)"
    "irandom d2 1 4 = Inr pits"
    "rollHazards PIT pits s2 ds3 = Inr (s3, ds4)"
    "rollHazards WUMPUS 1 s3 ds4 = Inr (s4, ds')"
    "w = senseLoops s4"
  using assms unfolding createWorld_def Let_def
  by (simp split: list.splits sum.splits prod.splits)

text \<open>
  C4. In every generated world and for every square (x, y) of the board, the stink
  layer is set at (x, y) exactly when some square of the board one orthogonal step
  away (no diagonal, no wrap-around) holds the Wumpus; likewise the draught layer for
  a Pit and the sound layer for a Bat.
\<close>

theorem sense_layers_adjacent:
  assumes "createWorld s ds = Inr (w, ds')" and "x < 8" and "y < 8"
  shows "(stinkLayer w x y \<longleftrightarrow> near (hazards w) WUMPUS x y)
       \<and> (draughtLayer w x y \<longleftrightarrow> near (hazards w) PIT x y)
       \<and> (soundLayer w x y \<longleftrightarrow> near (hazards w) BAT x y)"
proof -
  from assms(1) obtain s1 bats ds1 s2 ds2 pits ds3 s3 ds4 s4 where
    r: "rollHazards BAT bats (clearBoards s1) ds1 = Inr (s2, ds2)"
       "rollHazards PIT pits s2 ds3 = Inr (s3, ds4)"
       "rollHazards WUMPUS 1 s3 ds4 = Inr (s4, ds')"
    and w: "w = senseLoops s4"
    by (rule createWorld_Inr)
  have clear: "stinkLayer s4 = (\<lambda>i j. False)" "draughtLayer s4 = (\<lambda>i j. False)"
    "soundLayer s4 = (\<lambda>i j. False)"
    by (simp_all add: rollHazards_keeps [OF r(3)] rollHazards_keeps [OF r(2)]
        rollHazards_keeps [OF r(1)] clearBoards_def)
  show ?thesis
    unfolding w hazards_senseLoops
    using senseLoops_marks [where L = stinkLayer and k = WUMPUS, OF senseCell_stink assms(2,3)]
      senseLoops_marks [where L = draughtLayer and k = PIT, OF senseCell_draught assms(2,3)]
      senseLoops_marks [where L = soundLayer and k = BAT, OF senseCell_sound assms(2,3)]
    by (simp add: clear)
qed

lemma all_cells_set: "set all_cells = {(i, j). i < 8 \<and> j < 8}"
  by (auto simp: all_cells_def)

lemma all_cells_distinct: "distinct all_cells"
  by (simp add: all_cells_def distinct_product)

lemma count_cells_card: "count_cells g k = card {(i, j). i < 8 \<and> j < 8 \<and> g i j = k}"
proof -
  have "{c. case c of (i, j) \<Rightarrow> g i j = k} \<inter> set all_cells = {(i, j). i < 8 \<and> j < 8 \<and> g i j = k}"
    by (auto simp: all_cells_set)
  then show ?thesis
    by (simp add: count_cells_def distinct_length_filter [OF all_cells_distinct])
qed

lemma finite_marked: "finite {(i, j). i < (8 :: nat) \<and> j < (8 :: nat) \<and> P i j}"
proof -
  have "{(i, j). i < 8 \<and> j < 8 \<and> P i j} \<subseteq> {..<8} \<times> {..<8}" by auto
  then show ?thesis by (rule finite_subset) simp
qed

lemma count_cells_put:
  assumes "i < 8" and "j < 8" and "g i j = EMPTY" and "k \<noteq> EMPTY" and "k' \<noteq> EMPTY"
  shows "count_cells (put g i j k) k' = count_cells g k' + (if k' = k then 1 else 0)"
proof (cases "k' = k")
  case True
  have "{(a, b). a < 8 \<and> b < 8 \<and> put g i j k a b = k}
      = insert (i, j) {(a, b). a < 8 \<and> b < 8 \<and> g a b = k}"
    using assms(1,2) by (auto simp: put_apply)
  moreover have "(i, j) \<notin> {(a, b). a < 8 \<and> b < 8 \<and> g a b = k}"
    using assms(3,4) by auto
  ultimately show ?thesis
    using True by (simp add: count_cells_card finite_marked)
next
  case False
  have "{(a, b). a < 8 \<and> b < 8 \<and> put g i j k a b = k'}
      = {(a, b). a < 8 \<and> b < 8 \<and> g a b = k'}"
    using assms(3,5) False by (auto simp: put_apply)
  then show ?thesis
    using False by (simp add: count_cells_card)
qed

lemma count_cells_clear: "k \<noteq> EMPTY \<Longrightarrow> count_cells (\<lambda>i j. EMPTY) k = 0"
  by (simp add: count_cells_card)

text \<open>
  Placing \<open>n\<close> hazards of one kind: the loop adds \<open>n\<close> squares of that kind, leaves the
  number of squares of every other kind of hazard as it was, and writes nothing in the
  player's column and row.
\<close>

lemma rollHazards_loop_counts:
  assumes "rollHazards_loop n t s ds = Inr (s', ds')" and "t \<noteq> EMPTY"
  shows "count_cells (hazards s') t = count_cells (hazards s) t + n
       \<and> (\<forall>k. k \<noteq> EMPTY \<and> k \<noteq> t \<longrightarrow> count_cells (hazards s') k = count_cells (hazards s) k)
       \<and> (\<forall>a b. a = unat (playerX s) \<or> b = unat (playerY s) \<longrightarrow>
             hazards s' a b = hazards s a b)"
  using assms(1)
proof (induction n arbitrary: s ds)
  case 0
  then show ?case by simp
next
  case (Suc n)
  from Suc.prems obtain x y ds1 h where c: "rollCell s ds = Inr (x, y, ds1)"
    and h: "set_cell (hazards s) x y t = Inr h"
    and r: "rollHazards_loop n t (s\<lparr>hazards := h\<rparr>) ds1 = Inr (s', ds')"
    by (auto split: sum.splits)
  from rollCell_accepts [OF c] have a: "x < 8" "y < 8" "hazards s (unat x) (unat y) = EMPTY"
    "x \<noteq> playerX s" "y \<noteq> playerY s" by simp_all
  from a(1,2) have u: "unat x < 8" "unat y < 8" by (simp_all add: word_less_nat_alt)
  from h a(1,2) have hp: "h = put (hazards s) (unat x) (unat y) t"
    by (simp add: set_cell_def)
  from a(4,5) have ne: "unat x \<noteq> unat (playerX s)" "unat y \<noteq> unat (playerY s)"
    by (simp_all add: word_unat_eq_iff)
  have step: "count_cells h k = count_cells (hazards s) k + (if k = t then 1 else 0)"
    if "k \<noteq> EMPTY" for k
    unfolding hp using u a(3) assms(2) that by (rule count_cells_put)
  have keep: "h a b = hazards s a b" if "a = unat (playerX s) \<or> b = unat (playerY s)" for a b
    using that ne by (auto simp: hp put_apply)
  from Suc.IH [OF r] step keep assms(2) show ?case by simp
qed

lemma roll_1_4: "\<exists>n. irandom d 1 4 = Inr n \<and> 1 \<le> unat n \<and> unat n \<le> 4"
proof -
  have "(4 :: uint) \<noteq> 0" and "unat (1 :: uint) + unat (4 :: uint) \<le> 2 ^ 32" by simp_all
  from irandom_bounds [OF this, of "drawn d"] show ?thesis
    by (simp add: irandom_value)
qed

lemma start_corner:
  assumes "irandom d 0 4 = Inr r" and "elem startPoints (push_bit 1 r) = Inr px"
    and "elem startPoints (push_bit 1 r + 1) = Inr py"
  shows "(px, py) \<in> {(0, 0), (0, 7), (7, 7), (7, 0)}"
proof -
  from assms(1) have r: "r = drawn d mod 4" by (simp add: irandom_value)
  have "drawn d mod 4 < (4 :: uint)" by (rule word_mod_less_divisor) simp
  with r have "unat r < 4" by (simp add: word_less_nat_alt)
  then have "unat r = 0 \<or> unat r = 1 \<or> unat r = 2 \<or> unat r = 3" by arith
  then have "r = 0 \<or> r = 1 \<or> r = 2 \<or> r = 3"
    by (simp add: word_unat_eq_iff)
  with assms(2,3) show ?thesis
    by (auto simp: elem_def startPoints_def)
qed

lemma player_senseCell:
  "playerX (senseCell i j s) = playerX s" "playerY (senseCell i j s) = playerY s"
  by (simp_all add: senseCell_def)

lemma player_senseLoops:
  "playerX (senseLoops s) = playerX s" "playerY (senseLoops s) = playerY s"
proof -
  have row: "playerX (fold (senseCell i) js s) = playerX s
      \<and> playerY (fold (senseCell i) js s) = playerY s" for i js s
    by (induction js arbitrary: s) (simp_all add: player_senseCell)
  have "playerX (fold (\<lambda>i. fold (senseCell i) js) rows s) = playerX s
      \<and> playerY (fold (\<lambda>i. fold (senseCell i) js) rows s) = playerY s" for js rows
    by (induction rows arbitrary: s) (simp_all add: row)
  then show "playerX (senseLoops s) = playerX s" "playerY (senseLoops s) = playerY s"
    by (simp_all add: senseLoops_def)
qed

text \<open>
  What world generation does establish, for every list of draws on which it returns:
  exactly one Wumpus square, between one and four Bat squares and between one and four
  Pit squares, the player on one of the four corners, and that corner Empty.
\<close>

lemma createWorld_postcondition:
  assumes "createWorld s ds = Inr (w, ds')"
  shows "count_cells (hazards w) WUMPUS = 1"
    and "1 \<le> count_cells (hazards w) BAT \<and> count_cells (hazards w) BAT \<le> 4"
    and "1 \<le> count_cells (hazards w) PIT \<and> count_cells (hazards w) PIT \<le> 4"
    and "(playerX w, playerY w) \<in> {(0, 0), (0, 7), (7, 7), (7, 0)}"
    and "cell (hazards w) (playerX w) (playerY w) = Inr EMPTY"
proof -
  from assms obtain d0 d1 ds1 r px py bats s2 d2 ds3 pits s3 ds4 s4 facing where
    r: "irandom d0 0 4 = Inr r"
    and px: "elem startPoints (push_bit 1 r) = Inr px"
    and py: "elem startPoints (push_bit 1 r + 1) = Inr py"
    and bats: "irandom d1 1 4 = Inr bats" and pits: "irandom d2 1 4 = Inr pits"
    and r1: "rollHazards BAT bats
       (clearBoards (s\<lparr>playerX := px, playerY := py, lastMoveDirection := facing\<rparr>)) ds1
       = Inr (s2, d2 # ds3)"
    and r2: "rollHazards PIT pits s2 ds3 = Inr (s3, ds4)"
    and r3: "rollHazards WUMPUS 1 s3 ds4 = Inr (s4, ds')"
    and w: "w = senseLoops s4"
    by (rule createWorld_Inr)
  let ?s1 = "clearBoards (s\<lparr>playerX := px, playerY := py, lastMoveDirection := facing\<rparr>)"
  have s1: "hazards ?s1 = (\<lambda>i j. EMPTY)" "playerX ?s1 = px" "playerY ?s1 = py"
    by (simp_all add: clearBoards_def)
  note k1 = rollHazards_keeps [OF r1] and k2 = rollHazards_keeps [OF r2]
    and k3 = rollHazards_keeps [OF r3]
  note c1 = rollHazards_loop_counts [OF r1 [unfolded rollHazards_def] markers_distinct(1)]
    and c2 = rollHazards_loop_counts [OF r2 [unfolded rollHazards_def] markers_distinct(2)]
    and c3 = rollHazards_loop_counts [OF r3 [unfolded rollHazards_def] markers_distinct(3)]
  have wumpus: "count_cells (hazards s4) WUMPUS = 1"
    using c1 c2 c3 by (simp add: s1 count_cells_clear markers_distinct)
  have bat: "count_cells (hazards s4) BAT = unat bats"
    using c1 c2 c3 by (simp add: s1 count_cells_clear markers_distinct)
  have pit: "count_cells (hazards s4) PIT = unat pits"
    using c1 c2 c3 by (simp add: s1 count_cells_clear markers_distinct)
  from roll_1_4 [of d1] bats have nb: "1 \<le> unat bats \<and> unat bats \<le> 4" by simp
  from roll_1_4 [of d2] pits have np: "1 \<le> unat pits \<and> unat pits \<le> 4" by simp
  have pos: "playerX s4 = px" "playerY s4 = py"
    by (simp_all add: k1 k2 k3 s1)
  have corner: "(px, py) \<in> {(0, 0), (0, 7), (7, 7), (7, 0)}"
    using r px py by (rule start_corner)
  then have on: "px < 8" "py < 8" by auto
  have "hazards s4 (unat px) (unat py) = EMPTY"
    using c1 c2 c3 by (simp add: s1 k1 k2)
  with on have empty: "cell (hazards s4) px py = Inr EMPTY" by (simp add: cell_def)
  show "count_cells (hazards w) WUMPUS = 1"
    and "1 \<le> count_cells (hazards w) BAT \<and> count_cells (hazards w) BAT \<le> 4"
    and "1 \<le> count_cells (hazards w) PIT \<and> count_cells (hazards w) PIT \<le> 4"
    and "(playerX w, playerY w) \<in> {(0, 0), (0, 7), (7, 7), (7, 0)}"
    and "cell (hazards w) (playerX w) (playerY w) = Inr EMPTY"
    using wumpus bat pit nb np corner empty
    by (simp_all add: w hazards_senseLoops player_senseLoops pos)
qed

lemma rollHazards_loop_numeral:
  "rollHazards_loop (numeral k) t s ds =
     (case rollCell s ds of
        Inl e \<Rightarrow> Inl e
      | Inr (hazard_x, hazard_y, ds') \<Rightarrow>
          (case set_cell (hazards s) hazard_x hazard_y t of
             Inl e \<Rightarrow> Inl e
           | Inr h \<Rightarrow> rollHazards_loop (pred_numeral k) t (s\<lparr>hazards := h\<rparr>) ds'))"
  by (simp add: numeral_eq_Suc)

lemma four_bats_world: "createWorld initial fourBats = Inr (senseLoops fourBatsLaid, [])"
  by (simp add: createWorld_def fourBats_def irandom_def elem_def startPoints_def
      clearBoards_def rollHazards_def rollHazards_loop_numeral rollAccepts_def cell_def set_cell_def
      put_apply initial_def fourBatsLaid_def markers_distinct directions)

lemma cells_listed:
  "all_cells =
     [(0, 0), (0, 1), (0, 2), (0, 3), (0, 4), (0, 5), (0, 6), (0, 7),
      (1, 0), (1, 1), (1, 2), (1, 3), (1, 4), (1, 5), (1, 6), (1, 7),
      (2, 0), (2, 1), (2, 2), (2, 3), (2, 4), (2, 5), (2, 6), (2, 7),
      (3, 0), (3, 1), (3, 2), (3, 3), (3, 4), (3, 5), (3, 6), (3, 7),
      (4, 0), (4, 1), (4, 2), (4, 3), (4, 4), (4, 5), (4, 6), (4, 7),
      (5, 0), (5, 1), (5, 2), (5, 3), (5, 4), (5, 5), (5, 6), (5, 7),
      (6, 0), (6, 1), (6, 2), (6, 3), (6, 4), (6, 5), (6, 6), (6, 7),
      (7, 0), (7, 1), (7, 2), (7, 3), (7, 4), (7, 5), (7, 6), (7, 7)]"
  by (simp add: all_cells_def upt_rec)

lemma four_bats_count: "count_cells (hazards fourBatsLaid) BAT = 4"
  by (simp add: count_cells_def cells_listed fourBatsLaid_def put_apply markers_distinct)

theorem sense_layers_adjacent_witness:
  "\<exists>w. createWorld initial fourBats = Inr (w, []) \<and> (6 :: nat) < 8 \<and> (5 :: nat) < 8
     \<and> near (hazards w) WUMPUS 6 5 \<and> stinkLayer w 6 5
     \<and> near (hazards w) PIT 6 5 \<and> draughtLayer w 6 5
     \<and> \<not> near (hazards w) BAT 6 5 \<and> \<not> soundLayer w 6 5"
proof -
  let ?w = "senseLoops fourBatsLaid"
  have n: "near (hazards ?w) WUMPUS 6 5" "near (hazards ?w) PIT 6 5"
    "\<not> near (hazards ?w) BAT 6 5"
    by (simp_all add: hazards_senseLoops near_def cells_listed adjacent_def fourBatsLaid_def put_apply
        markers_distinct)
  have b: "(6 :: nat) < 8" "(5 :: nat) < 8" by simp_all
  from sense_layers_adjacent [OF four_bats_world b] n four_bats_world b
  show ?thesis by simp
qed

text \<open>
  C1 fails on the code. The bat roll \<open>irandom(1, 4)\<close> returns \<open>r mod 4 + 1\<close>, which is 4
  for a draw of 3: the run below places four Bat squares, where the comment in
  \<open>createWorld\<close> and the claim say one to three.
\<close>

theorem createWorld_four_bats:
  "createWorld initial fourBats = Inr (senseLoops fourBatsLaid, [])
 \<and> count_cells (hazards (senseLoops fourBatsLaid)) BAT = 4"
  by (simp add: four_bats_world hazards_senseLoops four_bats_count)

text \<open>
  C3 fails on the code. The loop of \<open>rollHazards\<close> accepts a square only when it is
  Empty and its x differs from \<open>playerX\<close> and its y differs from \<open>playerY\<close>: every square
  of the player's row and of the player's column is rejected, not only the start
  square. With the player on (0,0) the Empty square (0,5) is rejected and the loop
  goes on to the next pair of draws.
\<close>

theorem rollHazards_rejects_start_row:
  "cell (hazards freshBoard) 0 5 = Inr EMPTY
 \<and> (0 :: uint, 5 :: uint) \<noteq> (playerX freshBoard, playerY freshBoard)
 \<and> rollAccepts freshBoard 0 5 = Inr False
 \<and> rollCell freshBoard (map Hardware [0, 5, 7, 7]) = Inr (7, 7, [])"
  by (simp add: freshBoard_def clearBoards_def initial_def cell_def rollAccepts_def irandom_def)

section \<open>The fire button\<close>










end
